theory Spec2Isabelle
  imports Complex_Main "HOL-Library.Log_Nat"
begin

section \<open>Numbers\<close>

text \<open>
  Every finite Python \<^verbatim>\<open>float\<close> (and numpy \<^verbatim>\<open>float64\<close>) is a rational number, so
  floats are modelled by \<^typ>\<open>rat\<close>. A scalar float operation of the source is the exact
  operation followed by \<open>fl\<close>, the IEEE 754 binary64 rounding to nearest, ties to even,
  with gradual underflow (the exponent never goes below \<open>-1022\<close>). Infinities and NaN have
  no counterpart: a float result beyond the largest finite double, a division of a float
  by zero and NaN inputs are outside the model, and the theorems say so in their
  hypotheses where it matters. A Python \<^verbatim>\<open>int\<close> is a rational number as well; where the
  source divides a number that may be an \<^verbatim>\<open>int\<close>, the division is \<open>py_truediv\<close> below,
  with its exceptions.

  What numpy's array reductions return (\<^verbatim>\<open>np.percentile\<close>, \<^verbatim>\<open>np.mean\<close>,
  \<^verbatim>\<open>np.nanmean\<close>) depends on the dtype of the array and on numpy's order of summation and
  interpolation; these values are parameters of the model, in the record \<open>externals\<close>
  below. The emotion scores, which are sums of at most ten terms \<open>1\<close> and \<open>1/2\<close> and
  therefore exact in binary64, are added without rounding.
\<close>

definition round_half_even :: "rat \<Rightarrow> int" where
  "round_half_even x =
     (let f = \<lfloor>x\<rfloor>; d = x - of_int f
      in if d < 1 / 2 then f else if 1 / 2 < d then f + 1 else if even f then f else f + 1)"

text \<open>\<open>ilog2 x\<close> is \<open>\<lfloor>log\<^sub>2 x\<rfloor>\<close> for \<open>x > 0\<close>, computed on numerator and denominator.\<close>

definition ilog2 :: "rat \<Rightarrow> int" where
  "ilog2 x =
     (case quotient_of x of (p, q) \<Rightarrow>
        let a = bitlen p; b = bitlen q
        in if q * 2 ^ nat a \<le> p * 2 ^ nat b then a - b else a - b - 1)"

definition expo :: "rat \<Rightarrow> int" where
  "expo x = max (ilog2 \<bar>x\<bar>) (- 1022)"

definition fl :: "rat \<Rightarrow> rat" where
  "fl x =
     (if x = 0 then 0
      else let u = power_int 2 (expo x - 52)
           in of_int (round_half_even (x / u)) * u)"

text \<open>
  Python's \<^verbatim>\<open>round(x, 2)\<close> on a float: the exact value of \<open>x\<close> is rounded to two
  decimals, ties to even, and the decimal is converted back to the nearest double.
\<close>

definition py_round2 :: "rat \<Rightarrow> rat" where
  "py_round2 x = fl (of_int (round_half_even (x * 100)) / 100)"

text \<open>
  The builtin \<^verbatim>\<open>sum\<close> over a list of \<^verbatim>\<open>np.float64\<close>: a left fold of rounded additions
  starting from the integer \<open>0\<close>.
\<close>

definition py_sum :: "rat list \<Rightarrow> rat" where
  "py_sum xs = foldl (\<lambda>acc x. fl (acc + x)) 0 xs"

text \<open>\<^verbatim>\<open>np.clip(x, lo, hi)\<close> is \<^verbatim>\<open>minimum(maximum(x, lo), hi)\<close>.\<close>

definition np_clip :: "rat \<Rightarrow> rat \<Rightarrow> rat \<Rightarrow> rat" where
  "np_clip x lo hi = min (max x lo) hi"

datatype py_error =
  ZeroDivisionError | OverflowError | IndexError | ValueError | TypeError | LoadError

text \<open>
  The division \<^verbatim>\<open>x / y\<close> of two Python numbers. The quotient is rounded to a double. A
  quotient that rounds beyond the largest finite double can only come from an integer
  operand (a float is never that large, and the divisors of the source are at least one in
  magnitude), and the division of integers then raises an \<^verbatim>\<open>OverflowError\<close>.
\<close>

definition py_truediv :: "rat \<Rightarrow> rat \<Rightarrow> py_error + rat" where
  "py_truediv x y =
     (if y = 0 then Inl ZeroDivisionError
      else if 2 ^ 1024 \<le> \<bar>fl (x / y)\<bar> then Inl OverflowError
      else Inr (fl (x / y)))"

section \<open>feature\_extractor.py\<close>

type_synonym audio = "rat list"

text \<open>
  What the code obtains from librosa, numpy and the clock, as parameters: the
  preprocessing pipeline of \<^verbatim>\<open>AudioPreprocessor.preprocess\<close> (decode, trim, normalise),
  which raises when the file cannot be loaded; the per-frame mean of the mel spectrogram
  in dB; \<^verbatim>\<open>librosa.pyin\<close> with its \<open>f0\<close> and \<open>voiced_flag\<close> arrays; the value that
  \<^verbatim>\<open>np.percentile(a, q)\<close> returns for a non-empty array and \<open>q\<close> in \<open>[0, 100]\<close>; the values
  that \<^verbatim>\<open>np.mean\<close> and \<^verbatim>\<open>np.nanmean\<close> return for a non-empty sequence; and
  \<^verbatim>\<open>datetime.now().isoformat()\<close>.
\<close>

record externals =
  preprocess :: "string \<Rightarrow> py_error + audio"
  mel_energy :: "audio \<Rightarrow> rat list"
  pyin :: "audio \<Rightarrow> rat list \<times> bool list"
  percentile_value :: "rat list \<Rightarrow> rat \<Rightarrow> rat"
  mean_value :: "rat list \<Rightarrow> rat"
  nanmean_value :: "rat list \<Rightarrow> rat"
  now :: string

text \<open>
  \<^verbatim>\<open>np.percentile(a, q)\<close>: \<open>q\<close> outside \<open>[0, 100]\<close> is rejected with a \<^verbatim>\<open>ValueError\<close>
  before the data is looked at; an empty array fails with an \<^verbatim>\<open>IndexError\<close> when the
  sorted data is indexed; otherwise numpy returns its interpolated value.
\<close>

definition percentile :: "externals \<Rightarrow> rat list \<Rightarrow> rat \<Rightarrow> py_error + rat" where
  "percentile ext a q =
     (if q < 0 \<or> 100 < q then Inl ValueError
      else if a = [] then Inl IndexError
      else Inr (percentile_value ext a q))"

record SpeakingPatterns =
  sp_speaking_rate_wpm :: rat
  sp_average_pause_duration :: rat
  sp_energy_levels :: "rat list"
  sp_pitch_contour :: "rat list"
  sp_mean_pitch :: rat
  sp_pitch_range :: "rat \<times> rat"

text \<open>
  \<^verbatim>\<open>extract_energy\<close>: the log line formats \<^verbatim>\<open>energy.min()\<close>, which raises a
  \<^verbatim>\<open>ValueError\<close> on an array without frames.
\<close>

definition extract_energy :: "externals \<Rightarrow> audio \<Rightarrow> py_error + rat list" where
  "extract_energy ext audio =
     (let energy = mel_energy ext audio
      in if energy = [] then Inl ValueError else Inr energy)"

text \<open>
  \<^verbatim>\<open>extract_pitch\<close>: \<^verbatim>\<open>f0[voiced_flag]\<close> keeps the voiced frames; none left means
  \<^verbatim>\<open>None\<close>. The statistics are \<open>(min, max, mean)\<close>; the standard deviation, fourth in the
  source's tuple, is only logged and is left out.
\<close>

definition extract_pitch :: "externals \<Rightarrow> audio \<Rightarrow> (rat list \<times> rat \<times> rat \<times> rat) option" where
  "extract_pitch ext audio =
     (case pyin ext audio of (f0, voiced_flag) \<Rightarrow>
        let f0_voiced = map fst (filter snd (zip f0 voiced_flag))
        in if length f0_voiced = 0 then None
           else Some (f0_voiced,
                      fold min (tl f0_voiced) (hd f0_voiced),
                      fold max (tl f0_voiced) (hd f0_voiced),
                      nanmean_value ext f0_voiced))"

text \<open>
  \<^verbatim>\<open>librosa.frames_to_time\<close>: frame \<open>i\<close> starts at sample \<open>i * hop_length\<close>, and the
  sample index is divided by \<^verbatim>\<open>float(sr)\<close>. (For \<open>sr = 0\<close> numpy yields inf or NaN.)
\<close>

definition frames_to_time :: "nat \<Rightarrow> nat \<Rightarrow> nat \<Rightarrow> rat" where
  "frames_to_time sr hop_length i = fl (of_nat (i * hop_length) / of_nat sr)"

text \<open>
  The loop of \<^verbatim>\<open>extract_pauses\<close> over \<^verbatim>\<open>enumerate(pause_frames)\<close>; the state is
  \<open>(in_pause, pause_start, pause_durations)\<close>.
\<close>

fun pause_loop ::
  "(nat \<Rightarrow> rat) \<Rightarrow> nat \<Rightarrow> bool list \<Rightarrow> bool \<times> rat \<times> rat list \<Rightarrow> bool \<times> rat \<times> rat list"
where
  "pause_loop frame_times i [] st = st"
| "pause_loop frame_times i (is_paused # rest) (in_pause, pause_start, pause_durations) =
     (if is_paused \<and> \<not> in_pause then
        pause_loop frame_times (Suc i) rest (True, frame_times i, pause_durations)
      else if \<not> is_paused \<and> in_pause then
        pause_loop frame_times (Suc i) rest
          (False, pause_start, pause_durations @ [fl (frame_times i - pause_start)])
      else pause_loop frame_times (Suc i) rest (in_pause, pause_start, pause_durations))"

definition extract_pauses ::
  "externals \<Rightarrow> nat \<Rightarrow> audio \<Rightarrow> rat list \<Rightarrow> rat \<Rightarrow> py_error + rat list"
where
  "extract_pauses ext sr audio energy threshold_percentile =
     (case percentile ext energy threshold_percentile of
        Inl e \<Rightarrow> Inl e
      | Inr threshold \<Rightarrow>
          let pause_frames = map (\<lambda>e. e < threshold) energy;
              hop_length = 512;
              frame_times = frames_to_time sr hop_length
          in case pause_loop frame_times 0 pause_frames (False, 0, []) of
               (in_pause, pause_start, pause_durations) \<Rightarrow> Inr pause_durations)"

definition speaking_time :: "nat \<Rightarrow> audio \<Rightarrow> rat list \<Rightarrow> rat" where
  "speaking_time sr audio pause_durations =
     (let total_duration = fl (of_nat (length audio) / of_nat sr);
          total_pause_time = (if pause_durations \<noteq> [] then py_sum pause_durations else 0)
      in fl (total_duration - total_pause_time))"

text \<open>
  \<^verbatim>\<open>calculate_speaking_rate\<close>: \<^verbatim>\<open>len(audio) / self.sr\<close> divides two Python integers
  and raises for \<open>sr = 0\<close>.
\<close>

definition calculate_speaking_rate ::
  "nat \<Rightarrow> audio \<Rightarrow> rat list \<Rightarrow> rat list \<Rightarrow> py_error + rat"
where
  "calculate_speaking_rate sr audio energy pause_durations =
     (if sr = 0 then Inl ZeroDivisionError
      else let speaking_time = speaking_time sr audio pause_durations;
               estimated_words = fl (speaking_time * (5 / 2));
               estimated_wpm =
                 (if speaking_time > 0 then fl (fl (estimated_words / speaking_time) * 60) else 0)
           in Inr estimated_wpm)"

definition extract_all_features ::
  "externals \<Rightarrow> nat \<Rightarrow> audio \<Rightarrow> py_error + SpeakingPatterns option"
where
  "extract_all_features ext sr audio =
     (case extract_energy ext audio of
        Inl e \<Rightarrow> Inl e
      | Inr energy \<Rightarrow>
          (case extract_pitch ext audio of
             None \<Rightarrow> Inr None
           | Some (pitch_values, min_pitch, max_pitch, mean_pitch) \<Rightarrow>
               (case extract_pauses ext sr audio energy 25 of
                  Inl e \<Rightarrow> Inl e
                | Inr pauses \<Rightarrow>
                    (case calculate_speaking_rate sr audio energy pauses of
                       Inl e \<Rightarrow> Inl e
                     | Inr wpm \<Rightarrow>
                         Inr (Some \<lparr>sp_speaking_rate_wpm = wpm,
                                    sp_average_pause_duration =
                                      (if pauses \<noteq> [] then mean_value ext pauses else 0),
                                    sp_energy_levels = energy,
                                    sp_pitch_contour = pitch_values,
                                    sp_mean_pitch = mean_pitch,
                                    sp_pitch_range = (min_pitch, max_pitch)\<rparr>)))))"

text \<open>
  The pauses that the claim about \<^verbatim>\<open>extract_pauses\<close> describes, in the words of the
  specification: frames \<open>a, \<dots>, b - 1\<close> are a maximal run of paused frames, and frame \<open>b\<close>
  exists and is not paused (so a run that reaches the end of the sequence is no pause).
\<close>

definition recorded_pause :: "bool list \<Rightarrow> nat \<Rightarrow> nat \<Rightarrow> bool" where
  "recorded_pause flags a b \<longleftrightarrow>
     a < b \<and> b < length flags \<and> (\<forall>k \<in> {a..<b}. flags ! k) \<and> \<not> flags ! b \<and>
     (a = 0 \<or> \<not> flags ! (a - 1))"

text \<open>
  The loop once more, on frame indices instead of times: \<open>opened\<close> is the index at which
  the current pause started, if one is open.
\<close>

fun pause_runs :: "nat \<Rightarrow> nat option \<Rightarrow> bool list \<Rightarrow> (nat \<times> nat) list" where
  "pause_runs i opened [] = []"
| "pause_runs i None (f # fs) =
     (if f then pause_runs (Suc i) (Some i) fs else pause_runs (Suc i) None fs)"
| "pause_runs i (Some a) (f # fs) =
     (if f then pause_runs (Suc i) (Some a) fs else (a, i) # pause_runs (Suc i) None fs)"

text \<open>
  The invariant that links \<open>opened\<close> to the frames \<open>pre\<close> already scanned: no pause is
  open exactly when the last frame scanned is not paused, and an open pause started at the
  first frame of the run of paused frames that ends \<open>pre\<close>.
\<close>

definition open_ok :: "bool list \<Rightarrow> nat option \<Rightarrow> bool" where
  "open_ok pre opened =
     (case opened of
        None \<Rightarrow> pre = [] \<or> \<not> last pre
      | Some a \<Rightarrow> a < length pre \<and> (\<forall>k. a \<le> k \<and> k < length pre \<longrightarrow> pre ! k) \<and>
                  (a = 0 \<or> \<not> pre ! (a - 1)))"

section \<open>personalization\_engine.py\<close>

text \<open>
  \<^verbatim>\<open>pitch_range\<close> is a tuple when it comes from feature extraction and a list when it
  comes from a loaded file; the difference decides what the YAML loader accepts.
\<close>

datatype py_seq = PyTuple "rat list" | PyList "rat list"

fun seq_items :: "py_seq \<Rightarrow> rat list" where
  "seq_items (PyTuple xs) = xs"
| "seq_items (PyList xs) = xs"

datatype emotion = Happy | Sad | Angry | Calm | Neutral

text \<open>The keys of the \<^verbatim>\<open>scores\<close> dict, in the order in which the dict literal inserts them.\<close>

definition emotion_keys :: "emotion list" where
  "emotion_keys = [Happy, Sad, Angry, Calm, Neutral]"

record Features =
  f_mean_pitch :: rat
  f_pitch_range :: rat
  f_speaking_rate_wpm :: rat
  f_avg_energy :: rat

record EmotionProfile =
  dominant_emotion :: emotion
  confidence :: rat
  scores :: "emotion \<Rightarrow> rat"
  rules_triggered :: "string list"
  features_used :: Features

record VoiceProfile =
  user_id :: string
  user_name :: string
  created_date :: string
  last_updated :: string
  speaking_rate_wpm :: "rat option"
  average_pause_duration :: "rat option"
  mean_pitch :: "rat option"
  pitch_range :: "py_seq option"
  emotion_profile :: "EmotionProfile option"
  energy_levels :: "rat list option"
  pitch_contour :: "rat list option"

text \<open>\<^verbatim>\<open>VoiceProfile.__init__\<close>; the empty dict \<^verbatim>\<open>{}\<close> of \<^verbatim>\<open>emotion_profile\<close> is \<open>None\<close>.\<close>

definition VoiceProfile_init :: "externals \<Rightarrow> string \<Rightarrow> string \<Rightarrow> VoiceProfile" where
  "VoiceProfile_init ext uid uname =
     \<lparr>user_id = uid, user_name = uname, created_date = now ext, last_updated = now ext,
      speaking_rate_wpm = None, average_pause_duration = None, mean_pitch = None,
      pitch_range = None, emotion_profile = None, energy_levels = None, pitch_contour = None\<rparr>"

text \<open>\<^verbatim>\<open>scores[k] += w\<close>\<close>

definition bump :: "emotion \<Rightarrow> rat \<Rightarrow> (emotion \<Rightarrow> rat) \<Rightarrow> (emotion \<Rightarrow> rat)" where
  "bump k w sc = sc(k := sc k + w)"

text \<open>
  One \<^verbatim>\<open>if cond: \<dots>\<close> block of the cascade: the body updates the scores, then the
  rule's name is appended to \<^verbatim>\<open>rules_triggered\<close>.
\<close>

definition rule_block ::
  "bool \<Rightarrow> ((emotion \<Rightarrow> rat) \<Rightarrow> (emotion \<Rightarrow> rat)) \<Rightarrow> string \<Rightarrow>
   (emotion \<Rightarrow> rat) \<times> string list \<Rightarrow> (emotion \<Rightarrow> rat) \<times> string list"
where
  "rule_block cond body name st = (if cond then (body (fst st), snd st @ [name]) else st)"

definition emotion_rules ::
  "rat \<Rightarrow> rat \<Rightarrow> rat \<Rightarrow> rat \<Rightarrow> (emotion \<Rightarrow> rat) \<times> string list"
where
  "emotion_rules mean_pitch' pitch_range' speaking_rate avg_energy =
     (let HIGH_PITCH = 200; LOW_PITCH = 130;
          HIGH_RANGE = 80; LOW_RANGE = 40;
          FAST_RATE = 160; SLOW_RATE = 110;
          HIGH_ENERGY = 45; LOW_ENERGY = 35;
          st = (\<lambda>k. 0, []);
          st = rule_block (mean_pitch' > HIGH_PITCH)
                 (\<lambda>sc. bump Angry (1 / 2) (bump Happy 1 sc)) ''high_mean_pitch'' st;
          st = rule_block (pitch_range' > HIGH_RANGE)
                 (\<lambda>sc. bump Angry 1 (bump Happy 1 sc)) ''large_pitch_range'' st;
          st = rule_block (speaking_rate > FAST_RATE)
                 (\<lambda>sc. bump Angry (1 / 2) (bump Happy (1 / 2) sc)) ''fast_speaking_rate'' st;
          st = rule_block (avg_energy > HIGH_ENERGY)
                 (\<lambda>sc. bump Happy (1 / 2) (bump Angry 1 sc)) ''high_energy'' st;
          st = rule_block (mean_pitch' < LOW_PITCH)
                 (\<lambda>sc. bump Sad 1 sc) ''low_mean_pitch'' st;
          st = rule_block (pitch_range' < LOW_RANGE)
                 (\<lambda>sc. bump Calm (1 / 2) (bump Sad (1 / 2) sc)) ''small_pitch_range'' st;
          st = rule_block (speaking_rate < SLOW_RATE)
                 (\<lambda>sc. bump Calm (1 / 2) (bump Sad (1 / 2) sc)) ''slow_speaking_rate'' st;
          st = rule_block (avg_energy < LOW_ENERGY)
                 (\<lambda>sc. bump Calm (1 / 2) (bump Sad (1 / 2) sc)) ''low_energy'' st;
          st = rule_block (LOW_PITCH \<le> mean_pitch' \<and> mean_pitch' \<le> HIGH_PITCH \<and>
                     LOW_RANGE \<le> pitch_range' \<and> pitch_range' \<le> HIGH_RANGE)
                 (\<lambda>sc. bump Neutral (1 / 2) sc) ''mid_pitch_mid_range'' st;
          st = rule_block (SLOW_RATE < speaking_rate \<and> speaking_rate < FAST_RATE \<and>
                     LOW_ENERGY < avg_energy \<and> avg_energy < HIGH_ENERGY)
                 (\<lambda>sc. bump Neutral (1 / 2) (bump Calm (1 / 2) sc)) ''mid_rate_mid_energy'' st
      in st)"

text \<open>
  \<^verbatim>\<open>max(iterable, key=f)\<close>: the running best is replaced only by a strictly larger key,
  so the first maximal element wins.
\<close>

fun py_max_by :: "('a \<Rightarrow> rat) \<Rightarrow> 'a \<Rightarrow> 'a list \<Rightarrow> 'a" where
  "py_max_by key best [] = best"
| "py_max_by key best (k # ks) = py_max_by key (if key best < key k then k else best) ks"

text \<open>
  The end of \<^verbatim>\<open>_infer_emotion\<close>, from the scores to the dominant label and the
  confidence: \<^verbatim>\<open>max(scores, key=scores.get)\<close> runs over the keys in insertion order;
  \<^verbatim>\<open>sum(scores.values()) or 1.0\<close> replaces a zero total by one; the division is a
  float division and is rounded; \<^verbatim>\<open>round(confidence, 2)\<close> is applied last.
\<close>

definition pick_best :: "(emotion \<Rightarrow> rat) \<Rightarrow> emotion \<times> rat" where
  "pick_best scores' =
     (let dominant = py_max_by scores' (hd emotion_keys) (tl emotion_keys);
          max_score = scores' dominant;
          total = (let s = sum_list (map scores' emotion_keys) in if s = 0 then 1 else s);
          confidence' = fl (max_score / total)
      in (dominant, py_round2 confidence'))"

text \<open>The part of \<^verbatim>\<open>_infer_emotion\<close> after the four features are known.\<close>

definition emotion_of_features :: "rat \<Rightarrow> rat \<Rightarrow> rat \<Rightarrow> rat \<Rightarrow> EmotionProfile" where
  "emotion_of_features mean_pitch' pitch_range' speaking_rate avg_energy =
     (case emotion_rules mean_pitch' pitch_range' speaking_rate avg_energy of
        (scores', rules_triggered') \<Rightarrow>
          (case pick_best scores' of
             (dominant, confidence') \<Rightarrow>
               \<lparr>dominant_emotion = dominant,
                confidence = confidence',
                scores = scores',
                rules_triggered = rules_triggered',
                features_used = \<lparr>f_mean_pitch = mean_pitch', f_pitch_range = pitch_range',
                                  f_speaking_rate_wpm = speaking_rate,
                                  f_avg_energy = avg_energy\<rparr>\<rparr>))"

text \<open>
  \<^verbatim>\<open>_infer_emotion\<close>: \<^verbatim>\<open>x or 0.0\<close> maps both \<^verbatim>\<open>None\<close> and zero to zero; the pitch
  range is used when the sequence has exactly two items; the mean energy is
  \<^verbatim>\<open>sum(xs) / len(xs)\<close> of a non-empty list (the left-to-right sum of CPython up to 3.11).
\<close>

definition infer_emotion :: "VoiceProfile \<Rightarrow> EmotionProfile" where
  "infer_emotion profile =
     (let mean_pitch' = (case mean_pitch profile of None \<Rightarrow> 0 | Some v \<Rightarrow> v);
          pitch_range' =
            (case pitch_range profile of
               None \<Rightarrow> 0
             | Some s \<Rightarrow> (case seq_items s of [a, b] \<Rightarrow> fl (b - a) | _ \<Rightarrow> 0));
          speaking_rate = (case speaking_rate_wpm profile of None \<Rightarrow> 0 | Some v \<Rightarrow> v);
          avg_energy =
            (case energy_levels profile of
               None \<Rightarrow> 0
             | Some es \<Rightarrow> if es = [] then 0 else fl (py_sum es / of_nat (length es)))
      in emotion_of_features mean_pitch' pitch_range' speaking_rate avg_energy)"

record PersonalizationEngine =
  engine_sr :: nat
  voice_profiles :: "string \<rightharpoonup> VoiceProfile"

text \<open>
  \<^verbatim>\<open>create_voice_profile\<close> returns the pair of its result and the engine afterwards. An
  exception is logged and raised again, the engine unchanged.
\<close>

definition create_voice_profile ::
  "externals \<Rightarrow> PersonalizationEngine \<Rightarrow> string \<Rightarrow> string \<Rightarrow> string \<Rightarrow>
   (py_error + VoiceProfile option) \<times> PersonalizationEngine"
where
  "create_voice_profile ext eng uid uname audio_path =
     (case preprocess ext audio_path of
        Inl e \<Rightarrow> (Inl e, eng)
      | Inr audio \<Rightarrow>
          (case extract_all_features ext (engine_sr eng) audio of
             Inl e \<Rightarrow> (Inl e, eng)
           | Inr None \<Rightarrow> (Inr None, eng)
           | Inr (Some patterns) \<Rightarrow>
               let profile = VoiceProfile_init ext uid uname;
                   profile = profile
                     \<lparr>speaking_rate_wpm := Some (sp_speaking_rate_wpm patterns),
                      average_pause_duration := Some (sp_average_pause_duration patterns),
                      mean_pitch := Some (sp_mean_pitch patterns),
                      pitch_range :=
                        Some (PyTuple [fst (sp_pitch_range patterns), snd (sp_pitch_range patterns)]),
                      energy_levels := Some (sp_energy_levels patterns),
                      pitch_contour := Some (sp_pitch_contour patterns)\<rparr>;
                   profile = profile\<lparr>emotion_profile := Some (infer_emotion profile)\<rparr>
               in (Inr (Some profile),
                   eng\<lparr>voice_profiles := (voice_profiles eng)(uid \<mapsto> profile)\<rparr>)))"

text \<open>
  The two normalisers. The quotient is computed before \<^verbatim>\<open>np.clip\<close> sees it, so an
  integer too large for a double (as a loaded file can hold) raises.
\<close>

definition normalize_pitch_for_synthesis :: "rat option \<Rightarrow> py_error + rat" where
  "normalize_pitch_for_synthesis mean_pitch' =
     (case mean_pitch' of
        None \<Rightarrow> Inr 1
      | Some mp \<Rightarrow>
          (case py_truediv mp 150 of
             Inl e \<Rightarrow> Inl e
           | Inr q \<Rightarrow> Inr (np_clip q (1 / 2) 2)))"

definition normalize_speed_for_synthesis :: "rat option \<Rightarrow> py_error + rat" where
  "normalize_speed_for_synthesis wpm =
     (case wpm of
        None \<Rightarrow> Inr 1
      | Some w \<Rightarrow>
          (case py_truediv w 150 of
             Inl e \<Rightarrow> Inl e
           | Inr q \<Rightarrow> Inr (np_clip q (1 / 2) 2)))"

record SynthesisParameters =
  pitch_adjust :: rat
  speaking_rate_adjust :: rat
  pause_duration :: "rat option"
  energy_level :: rat

text \<open>
  \<^verbatim>\<open>get_synthesis_parameters\<close>: an unknown user gives \<^verbatim>\<open>None\<close>. The entries of
  \<^verbatim>\<open>params\<close> are evaluated in the order of the dictionary display, so an exception of the
  pitch normaliser comes first, then one of the speed normaliser. The last log line
  formats \<^verbatim>\<open>params['pause_duration']\<close> with \<^verbatim>\<open>:.3f\<close>, which raises a
  \<^verbatim>\<open>TypeError\<close> when the profile has no pause duration.
\<close>

definition get_synthesis_parameters ::
  "externals \<Rightarrow> PersonalizationEngine \<Rightarrow> string \<Rightarrow> py_error + SynthesisParameters option"
where
  "get_synthesis_parameters ext eng uid =
     (case voice_profiles eng uid of
        None \<Rightarrow> Inr None
      | Some profile \<Rightarrow>
          (case normalize_pitch_for_synthesis (mean_pitch profile) of
             Inl e \<Rightarrow> Inl e
           | Inr pitch \<Rightarrow>
               (case normalize_speed_for_synthesis (speaking_rate_wpm profile) of
                  Inl e \<Rightarrow> Inl e
                | Inr speed \<Rightarrow>
                    let params =
                          \<lparr>pitch_adjust = pitch,
                           speaking_rate_adjust = speed,
                           pause_duration = average_pause_duration profile,
                           energy_level =
                             (case energy_levels profile of
                                None \<Rightarrow> 1 / 2
                              | Some es \<Rightarrow> if es = [] then 1 / 2 else mean_value ext es)\<rparr>
                    in if pause_duration params = None then Inl TypeError
                       else Inr (Some params))))"

subsection \<open>Saving and loading\<close>

record SpeakingCharacteristics =
  sc_speaking_rate_wpm :: "rat option"
  sc_average_pause_duration :: "rat option"
  sc_mean_pitch :: "rat option"
  sc_pitch_range :: "py_seq option"

record ProfileDict =
  d_user_id :: string
  d_user_name :: string
  d_created_date :: string
  d_last_updated :: string
  d_speaking_characteristics :: SpeakingCharacteristics
  d_emotion_profile :: "EmotionProfile option"

definition to_dict :: "VoiceProfile \<Rightarrow> ProfileDict" where
  "to_dict self =
     \<lparr>d_user_id = user_id self,
      d_user_name = user_name self,
      d_created_date = created_date self,
      d_last_updated = last_updated self,
      d_speaking_characteristics =
        \<lparr>sc_speaking_rate_wpm = speaking_rate_wpm self,
         sc_average_pause_duration = average_pause_duration self,
         sc_mean_pitch = mean_pitch self,
         sc_pitch_range = pitch_range self\<rparr>,
      d_emotion_profile = emotion_profile self\<rparr>"

text \<open>
  A file holds the text that \<^verbatim>\<open>json.dump\<close> or \<^verbatim>\<open>yaml.dump\<close> wrote for a dict. The two
  parsers of \<^verbatim>\<open>load_profile\<close> are the libraries' own and are modelled by what they return
  for such a text:
  \<^item> \<^verbatim>\<open>json.dump\<close> writes a tuple as an array, so \<^verbatim>\<open>json.load\<close> returns a list in its
    place, and the numbers as they were;
  \<^item> \<^verbatim>\<open>yaml.dump\<close> (the full dumper) writes a tuple under the tag \<^verbatim>\<open>!!python/tuple\<close>,
    and \<^verbatim>\<open>yaml.safe_load\<close> raises a \<^verbatim>\<open>ConstructorError\<close> on that tag; without a tuple
    the dict comes back as it was.
  A text of the other format makes the parser fail; \<^verbatim>\<open>save_profile\<close> never produces one
  under the extension that selects the parser.
\<close>

datatype saved_file = JsonText ProfileDict | YamlText ProfileDict

definition tuple_to_list :: "py_seq \<Rightarrow> py_seq" where
  "tuple_to_list s = PyList (seq_items s)"

definition json_load :: "saved_file \<Rightarrow> ProfileDict option" where
  "json_load f =
     (case f of
        JsonText d \<Rightarrow>
          Some (d\<lparr>d_speaking_characteristics :=
                    (d_speaking_characteristics d)
                      \<lparr>sc_pitch_range :=
                         map_option tuple_to_list (sc_pitch_range (d_speaking_characteristics d))\<rparr>\<rparr>)
      | YamlText d \<Rightarrow> None)"

definition yaml_safe_load :: "saved_file \<Rightarrow> ProfileDict option" where
  "yaml_safe_load f =
     (case f of
        YamlText d \<Rightarrow>
          (case sc_pitch_range (d_speaking_characteristics d) of
             Some (PyTuple xs) \<Rightarrow> None
           | _ \<Rightarrow> Some d)
      | JsonText d \<Rightarrow> None)"

text \<open>\<^verbatim>\<open>str.endswith\<close>\<close>

definition endswith :: "string \<Rightarrow> string \<Rightarrow> bool" where
  "endswith s suf \<longleftrightarrow> length suf \<le> length s \<and> drop (length s - length suf) s = suf"

text \<open>
  \<^verbatim>\<open>save_profile\<close> returns the path written, or \<^verbatim>\<open>None\<close> for an unknown user or
  format, and the files afterwards. The path is \<^verbatim>\<open>output_dir / f"{user_id}_profile.json"\<close>
  (or \<^verbatim>\<open>.yaml\<close>), taken here as plain concatenation with a slash.
\<close>

definition save_profile ::
  "PersonalizationEngine \<Rightarrow> (string \<rightharpoonup> saved_file) \<Rightarrow> string \<Rightarrow> string \<Rightarrow> string \<Rightarrow>
   string option \<times> (string \<rightharpoonup> saved_file)"
where
  "save_profile eng files uid output_dir format =
     (case voice_profiles eng uid of
        None \<Rightarrow> (None, files)
      | Some profile \<Rightarrow>
          if format = ''json'' then
            let filepath = output_dir @ ''/'' @ uid @ ''_profile.json''
            in (Some filepath, files(filepath \<mapsto> JsonText (to_dict profile)))
          else if format = ''yaml'' then
            let filepath = output_dir @ ''/'' @ uid @ ''_profile.yaml''
            in (Some filepath, files(filepath \<mapsto> YamlText (to_dict profile)))
          else (None, files))"

text \<open>
  \<^verbatim>\<open>load_profile\<close> returns the profile, or \<^verbatim>\<open>None\<close> when the file is missing, has
  another extension or makes the parser raise (every exception is caught), and the engine
  afterwards.
\<close>

definition load_profile ::
  "externals \<Rightarrow> PersonalizationEngine \<Rightarrow> (string \<rightharpoonup> saved_file) \<Rightarrow> string \<Rightarrow>
   VoiceProfile option \<times> PersonalizationEngine"
where
  "load_profile ext eng files profile_path =
     (case files profile_path of
        None \<Rightarrow> (None, eng)
      | Some f \<Rightarrow>
          (case (if endswith profile_path ''.json'' then json_load f
                 else if endswith profile_path ''.yaml'' then yaml_safe_load f
                 else None) of
             None \<Rightarrow> (None, eng)
           | Some data \<Rightarrow>
               let profile = VoiceProfile_init ext (d_user_id data) (d_user_name data);
                   sc = d_speaking_characteristics data;
                   profile = profile
                     \<lparr>speaking_rate_wpm := sc_speaking_rate_wpm sc,
                      average_pause_duration := sc_average_pause_duration sc,
                      mean_pitch := sc_mean_pitch sc,
                      pitch_range := sc_pitch_range sc\<rparr>
               in (Some profile,
                   eng\<lparr>voice_profiles := (voice_profiles eng)(user_id profile \<mapsto> profile)\<rparr>)))"

subsection \<open>The rule table of the specification\<close>

text \<open>
  The table of section 4.3 of the specification, row by row: condition, rule identifier,
  weights. It is what the claim about the scores compares \<^verbatim>\<open>_infer_emotion\<close> with.
\<close>

definition spec_rule_table ::
  "rat \<Rightarrow> rat \<Rightarrow> rat \<Rightarrow> rat \<Rightarrow> (bool \<times> string \<times> (emotion \<times> rat) list) list"
where
  "spec_rule_table p r s e =
     [(p > 200, ''high_mean_pitch'', [(Happy, 1), (Angry, 1 / 2)]),
      (r > 80, ''large_pitch_range'', [(Happy, 1), (Angry, 1)]),
      (s > 160, ''fast_speaking_rate'', [(Happy, 1 / 2), (Angry, 1 / 2)]),
      (e > 45, ''high_energy'', [(Happy, 1 / 2), (Angry, 1)]),
      (p < 130, ''low_mean_pitch'', [(Sad, 1)]),
      (r < 40, ''small_pitch_range'', [(Sad, 1 / 2), (Calm, 1 / 2)]),
      (s < 110, ''slow_speaking_rate'', [(Sad, 1 / 2), (Calm, 1 / 2)]),
      (e < 35, ''low_energy'', [(Sad, 1 / 2), (Calm, 1 / 2)]),
      (130 \<le> p \<and> p \<le> 200 \<and> 40 \<le> r \<and> r \<le> 80, ''mid_pitch_mid_range'', [(Neutral, 1 / 2)]),
      (110 < s \<and> s < 160 \<and> 35 < e \<and> e < 45, ''mid_rate_mid_energy'',
       [(Calm, 1 / 2), (Neutral, 1 / 2)])]"

definition weight_of :: "(emotion \<times> rat) list \<Rightarrow> emotion \<Rightarrow> rat" where
  "weight_of ws l = sum_list (map snd (filter (\<lambda>kw. fst kw = l) ws))"

definition spec_score :: "(bool \<times> string \<times> (emotion \<times> rat) list) list \<Rightarrow> emotion \<Rightarrow> rat" where
  "spec_score table l = sum_list (map (\<lambda>row. weight_of (snd (snd row)) l) (filter fst table))"

definition spec_triggered :: "(bool \<times> string \<times> (emotion \<times> rat) list) list \<Rightarrow> string list" where
  "spec_triggered table = map (\<lambda>row. fst (snd row)) (filter fst table)"

text \<open>
  Whether rounding the quotient \<open>a / b\<close> to a double first changes its rounding to two
  decimals; used for the finitely many quotients \<open>max_score / total\<close> that can occur.
\<close>

definition round2_agrees :: "int \<Rightarrow> int \<Rightarrow> bool" where
  "round2_agrees a b \<longleftrightarrow>
     round_half_even (fl (of_int a / of_int b) * 100) = round_half_even (of_int a / of_int b * 100)"

subsection \<open>Inputs used in examples\<close>

text \<open>
  A recording in which the pitch tracker finds no voiced frame: the energy is \<open>-80\<close> dB in
  both frames, of which every percentile is \<open>-80\<close>, and no mean is taken.
\<close>

definition silent_externals :: externals where
  "silent_externals =
     \<lparr>preprocess = (\<lambda>path. Inr [0, 0, 0]),
      mel_energy = (\<lambda>a. [- 80, - 80]),
      pyin = (\<lambda>a. ([0, 0], [False, False])),
      percentile_value = (\<lambda>a q. - 80),
      mean_value = (\<lambda>xs. 0),
      nanmean_value = (\<lambda>xs. 0),
      now = ''2026-01-01T00:00:00''\<rparr>"

text \<open>
  Two energy traces, and what \<^verbatim>\<open>np.percentile\<close> returns for them at \<open>q = 25\<close>. The first
  has twelve frames: its virtual index is \<open>11 * 0.25 = 2.75\<close>, between the sorted values
  \<open>-6\<close> and \<open>-5\<close>, and the interpolation gives \<open>-5.25\<close>. The second has six frames: its
  virtual index is \<open>5 * 0.25 = 1.25\<close>, between two sorted values \<open>-5\<close>. Both
  interpolations are exact in single and in double precision. No other array is asked for
  in the examples (\<open>0\<close> stands for the answers that are not needed).
\<close>

definition example_energy :: "rat list" where
  "example_energy = [10, 10, - 5, - 6, 10, 10, - 8, 10, 10, 10, 10, - 7]"

definition flat_energy :: "rat list" where
  "flat_energy = [10, 10, - 5, - 5, - 5, 10]"

definition example_externals :: externals where
  "example_externals =
     silent_externals
       \<lparr>percentile_value :=
          (\<lambda>a q. if a = example_energy \<and> q = 25 then - (21 / 4)
                 else if a = flat_energy \<and> q = 25 then - 5
                 else 0)\<rparr>"

text \<open>
  A profile as \<^verbatim>\<open>create_voice_profile\<close> builds it, with its pitch range in a tuple, held
  by an engine.
\<close>

definition example_profile :: VoiceProfile where
  "example_profile =
     (let profile =
            \<lparr>user_id = ''user1'', user_name = ''User 1'',
             created_date = ''2026-01-01T00:00:00'', last_updated = ''2026-01-01T00:00:00'',
             speaking_rate_wpm = Some 150, average_pause_duration = Some 0,
             mean_pitch = Some 120, pitch_range = Some (PyTuple [100, 140]),
             emotion_profile = None,
             energy_levels = Some [- 40, - 35], pitch_contour = Some [100, 120, 140]\<rparr>
      in profile\<lparr>emotion_profile := Some (infer_emotion profile)\<rparr>)"

definition example_engine :: PersonalizationEngine where
  "example_engine = \<lparr>engine_sr = 22050, voice_profiles = [''user1'' \<mapsto> example_profile]\<rparr>"

text \<open>
  The file that \<^verbatim>\<open>save_json\<close> writes for a profile that has been constructed but not
  measured: the four speaking characteristics are \<^verbatim>\<open>null\<close>. And a profile file in which
  the mean pitch is the integer \<open>10\<^sup>4\<^sup>0\<^sup>0\<close>.
\<close>

definition huge_int :: rat where
  "huge_int = 10 ^ 400"

definition unmeasured_files :: "string \<rightharpoonup> saved_file" where
  "unmeasured_files =
     [''profiles/user1_profile.json'' \<mapsto>
        JsonText (to_dict (VoiceProfile_init silent_externals ''user1'' ''User 1''))]"

definition huge_pitch_files :: "string \<rightharpoonup> saved_file" where
  "huge_pitch_files =
     [''profiles/user1_profile.json'' \<mapsto>
        JsonText (to_dict ((VoiceProfile_init silent_externals ''user1'' ''User 1'')
          \<lparr>speaking_rate_wpm := Some 150, average_pause_duration := Some (1 / 4),
           mean_pitch := Some huge_int\<rparr>))]"

definition empty_engine :: PersonalizationEngine where
  "empty_engine = \<lparr>engine_sr = 22050, voice_profiles = Map.empty\<rparr>"

section \<open>Properties of the rounding\<close>

lemma rhe_err: "\<bar>of_int (round_half_even x) - x\<bar> \<le> 1 / 2"
  unfolding round_half_even_def Let_def by (auto simp: abs_if) linarith+

lemma rhe_of_int [simp]: "round_half_even (of_int k) = k"
  unfolding round_half_even_def Let_def by simp

lemma rhe_mono:
  assumes "x \<le> y"
  shows "round_half_even x \<le> round_half_even y"
proof (cases "\<lfloor>x\<rfloor> = \<lfloor>y\<rfloor>")
  case True
  then show ?thesis using assms unfolding round_half_even_def Let_def by auto
next
  case False
  moreover have "\<lfloor>x\<rfloor> \<le> \<lfloor>y\<rfloor>" using assms by (rule floor_mono)
  ultimately have "\<lfloor>x\<rfloor> + 1 \<le> \<lfloor>y\<rfloor>" by simp
  moreover have "round_half_even x \<le> \<lfloor>x\<rfloor> + 1" unfolding round_half_even_def Let_def by auto
  moreover have "\<lfloor>y\<rfloor> \<le> round_half_even y" unfolding round_half_even_def Let_def by auto
  ultimately show ?thesis by linarith
qed

lemma rhe_uminus: "round_half_even (- x) = - round_half_even x"
proof (cases "x = of_int \<lfloor>x\<rfloor>")
  case True
  then obtain k where "x = of_int k" ..
  then show ?thesis by (simp flip: of_int_minus)
next
  case False
  then have f: "\<lfloor>- x\<rfloor> = - \<lfloor>x\<rfloor> - 1" by (simp add: floor_minus ceiling_altdef)
  have d: "x - of_int \<lfloor>x\<rfloor> \<noteq> 0" using False by simp
  show ?thesis unfolding round_half_even_def Let_def f using d by auto
qed

lemma rhe_nearest:
  assumes "of_int k - 1 / 2 < x" and "x < of_int k + 1 / 2"
  shows "round_half_even x = k"
proof -
  have "\<bar>of_int (round_half_even x) - x\<bar> \<le> 1 / 2" by (rule rhe_err)
  then have "\<bar>(of_int (round_half_even x) :: rat) - of_int k\<bar> < 1"
    using assms unfolding abs_le_iff abs_less_iff by linarith
  then have "\<bar>(of_int (round_half_even x - k) :: rat)\<bar> < of_int 1" by simp
  then have "\<bar>round_half_even x - k\<bar> < 1" by (simp only: of_int_abs[symmetric] of_int_less_iff)
  then show ?thesis by simp
qed

lemma pow2_pos: "0 < (power_int 2 e :: rat)"
  by simp

lemma pow2_nat: "0 \<le> a \<Longrightarrow> (power_int 2 a :: rat) = 2 ^ nat a"
  by (simp add: power_int_def)

lemma pow2_diff: "(power_int 2 (a - b) :: rat) = power_int 2 a / power_int 2 b"
  by (simp add: power_int_diff)

lemma pow2_less_cancel: "(power_int 2 a :: rat) < power_int 2 b \<Longrightarrow> a < b"
  by (metis linorder_not_less one_le_numeral power_int_increasing)

lemma pow2_split_upper: "(power_int 2 (e + 1) :: rat) = 2 ^ 53 * power_int 2 (e - 52)"
proof -
  have "e + 1 = 53 + (e - 52)" by simp
  then have "(power_int 2 (e + 1) :: rat) = power_int 2 (53 + (e - 52))" by (rule arg_cong)
  also have "\<dots> = power_int 2 53 * power_int 2 (e - 52)" by (rule power_int_add) simp
  finally show ?thesis by simp
qed

lemma pow2_split_lower: "(power_int 2 e :: rat) = 2 ^ 52 * power_int 2 (e - 52)"
proof -
  have "e = 52 + (e - 52)" by simp
  then have "(power_int 2 e :: rat) = power_int 2 (52 + (e - 52))" by (rule arg_cong)
  also have "\<dots> = power_int 2 52 * power_int 2 (e - 52)" by (rule power_int_add) simp
  finally show ?thesis by simp
qed

text \<open>\<open>ilog2\<close> is the binary exponent: \<open>2\<^sup>e \<le> x < 2\<^sup>e\<^sup>+\<^sup>1\<close> exactly for \<open>e = ilog2 x\<close>.\<close>

lemma ilog2_bounds:
  assumes "0 < x"
  shows "power_int 2 (ilog2 x) \<le> x" and "x < power_int 2 (ilog2 x + 1)"
proof -
  obtain p q where pq: "quotient_of x = (p, q)" by (cases "quotient_of x")
  have q: "0 < q" using pq by (rule quotient_of_denom_pos)
  have x: "x = of_int p / of_int q" using pq by (rule quotient_of_div)
  have p: "0 < p" using assms q x by (simp add: zero_less_divide_iff)
  define a where "a = bitlen p"
  define b where "b = bitlen q"
  have a1: "1 \<le> a" using p by (simp add: a_def bitlen_alt_def)
  have b1: "1 \<le> b" using q by (simp add: b_def bitlen_alt_def)
  have pb: "2 ^ nat (a - 1) \<le> p" "p < 2 ^ nat a"
    using bitlen_bounds[OF p] by (simp_all add: a_def)
  have qb: "2 ^ nat (b - 1) \<le> q" "q < 2 ^ nat b"
    using bitlen_bounds[OF q] by (simp_all add: b_def)
  have A: "(power_int 2 a :: rat) = of_int (2 ^ nat a)" using a1 by (simp add: pow2_nat)
  have B: "(power_int 2 b :: rat) = of_int (2 ^ nat b)" using b1 by (simp add: pow2_nat)
  have A': "(power_int 2 (a - 1) :: rat) = of_int (2 ^ nat (a - 1))" using a1 by (simp add: pow2_nat)
  have B': "(power_int 2 (b - 1) :: rat) = of_int (2 ^ nat (b - 1))" using b1 by (simp add: pow2_nat)
  have qr: "(0::rat) < of_int q" using q by simp
  have Br: "(0::rat) < of_int (2 ^ nat b)" by simp
  show "power_int 2 (ilog2 x) \<le> x"
  proof (cases "q * 2 ^ nat a \<le> p * 2 ^ nat b")
    case True
    then have e: "ilog2 x = a - b" by (simp add: ilog2_def pq a_def b_def Let_def)
    have "(of_int (q * 2 ^ nat a) :: rat) \<le> of_int (p * 2 ^ nat b)"
      using True by (simp only: of_int_le_iff)
    then have "(of_int (2 ^ nat a) :: rat) / of_int (2 ^ nat b) \<le> of_int p / of_int q"
      using qr Br by (simp add: field_simps)
    then have "power_int 2 (a - b) \<le> x" by (simp only: pow2_diff A B x)
    then show ?thesis by (simp only: e)
  next
    case False
    then have e: "ilog2 x = a - 1 - b" by (simp add: ilog2_def pq a_def b_def Let_def)
    have "q * 2 ^ nat (a - 1) \<le> 2 ^ nat b * 2 ^ nat (a - 1)" using qb by simp
    also have "\<dots> \<le> 2 ^ nat b * p" using pb by simp
    finally have "q * 2 ^ nat (a - 1) \<le> p * 2 ^ nat b" by (simp add: mult.commute)
    then have "(of_int (q * 2 ^ nat (a - 1)) :: rat) \<le> of_int (p * 2 ^ nat b)"
      by (simp only: of_int_le_iff)
    then have "(of_int (2 ^ nat (a - 1)) :: rat) / of_int (2 ^ nat b) \<le> of_int p / of_int q"
      using qr Br by (simp add: field_simps)
    moreover have "(power_int 2 (a - 1 - b) :: rat) = power_int 2 (a - 1) / power_int 2 b"
      by (rule pow2_diff)
    ultimately have "power_int 2 (a - 1 - b) \<le> x" by (simp only: A' B x)
    then show ?thesis by (simp only: e)
  qed
  show "x < power_int 2 (ilog2 x + 1)"
  proof (cases "q * 2 ^ nat a \<le> p * 2 ^ nat b")
    case True
    then have e: "ilog2 x + 1 = a - (b - 1)" by (simp add: ilog2_def pq a_def b_def Let_def)
    have "p * 2 ^ nat (b - 1) < 2 ^ nat a * 2 ^ nat (b - 1)" using pb by simp
    also have "\<dots> \<le> 2 ^ nat a * q" using qb by simp
    finally have "p * 2 ^ nat (b - 1) < q * 2 ^ nat a" by (simp add: mult.commute)
    then have "(of_int (p * 2 ^ nat (b - 1)) :: rat) < of_int (q * 2 ^ nat a)"
      by (simp only: of_int_less_iff)
    then have "(of_int p :: rat) / of_int q < of_int (2 ^ nat a) / of_int (2 ^ nat (b - 1))"
      using qr by (simp add: field_simps)
    moreover have "(power_int 2 (a - (b - 1)) :: rat) = power_int 2 a / power_int 2 (b - 1)"
      by (rule pow2_diff)
    ultimately have "x < power_int 2 (a - (b - 1))" by (simp only: A B' x)
    then show ?thesis by (simp only: e)
  next
    case False
    then have e: "ilog2 x + 1 = a - b" by (simp add: ilog2_def pq a_def b_def Let_def)
    have "p * 2 ^ nat b < q * 2 ^ nat a" using False by simp
    then have "(of_int (p * 2 ^ nat b) :: rat) < of_int (q * 2 ^ nat a)"
      by (simp only: of_int_less_iff)
    then have "(of_int p :: rat) / of_int q < of_int (2 ^ nat a) / of_int (2 ^ nat b)"
      using qr Br by (simp add: field_simps)
    then have "x < power_int 2 (a - b)" by (simp only: pow2_diff A B x)
    then show ?thesis by (simp only: e)
  qed
qed

lemma ilog2_unique:
  assumes "power_int 2 e \<le> x" and "x < power_int 2 (e + 1)"
  shows "ilog2 x = e"
proof -
  have x: "0 < x" using assms(1) pow2_pos[of e] by linarith
  have "power_int 2 (ilog2 x) < (power_int 2 (e + 1) :: rat)"
    using ilog2_bounds(1)[OF x] assms(2) by linarith
  then have 1: "ilog2 x < e + 1" by (rule pow2_less_cancel)
  have "power_int 2 e < (power_int 2 (ilog2 x + 1) :: rat)"
    using ilog2_bounds(2)[OF x] assms(1) by linarith
  then have 2: "e < ilog2 x + 1" by (rule pow2_less_cancel)
  from 1 2 show ?thesis by linarith
qed

lemma ilog2_mono:
  assumes "0 < x" and "x \<le> y"
  shows "ilog2 x \<le> ilog2 y"
proof -
  have y: "0 < y" using assms by linarith
  have "power_int 2 (ilog2 x) < (power_int 2 (ilog2 y + 1) :: rat)"
    using ilog2_bounds(1)[OF assms(1)] ilog2_bounds(2)[OF y] assms(2) by linarith
  then have "ilog2 x < ilog2 y + 1" by (rule pow2_less_cancel)
  then show ?thesis by simp
qed

lemma fl_alt:
  "x \<noteq> 0 \<Longrightarrow>
   fl x = of_int (round_half_even (x / power_int 2 (expo x - 52))) * power_int 2 (expo x - 52)"
  by (simp add: fl_def Let_def)

lemma fl_0 [simp]: "fl 0 = 0"
  by (simp add: fl_def)

lemma fl_uminus: "fl (- x) = - fl x"
  by (simp add: fl_def expo_def Let_def rhe_uminus flip: minus_divide_left)

lemma fl_nonneg:
  assumes "0 \<le> x"
  shows "0 \<le> fl x"
proof (cases "x = 0")
  case False
  have "0 \<le> x / power_int 2 (expo x - 52)" using assms by simp
  then have "round_half_even 0 \<le> round_half_even (x / power_int 2 (expo x - 52))"
    by (rule rhe_mono)
  then have "0 \<le> round_half_even (x / power_int 2 (expo x - 52))"
    using rhe_of_int[of 0] by simp
  then show ?thesis using False by (simp add: fl_alt)
qed simp

lemma fl_upper:
  assumes "0 < x"
  shows "fl x \<le> power_int 2 (expo x + 1)"
proof -
  let ?u = "power_int 2 (expo x - 52) :: rat"
  have u: "0 < ?u" by simp
  have "x < power_int 2 (ilog2 x + 1)" using assms by (rule ilog2_bounds)
  also have "\<dots> \<le> power_int 2 (expo x + 1)"
    using assms by (intro power_int_increasing) (simp_all add: expo_def)
  finally have "x \<le> 2 ^ 53 * ?u" by (simp add: pow2_split_upper)
  then have "x / ?u \<le> of_int (2 ^ 53)" using u by (simp add: field_simps)
  then have "round_half_even (x / ?u) \<le> round_half_even (of_int (2 ^ 53))" by (rule rhe_mono)
  then have "round_half_even (x / ?u) \<le> 2 ^ 53" by (simp only: rhe_of_int)
  then have "(of_int (round_half_even (x / ?u)) :: rat) \<le> of_int (2 ^ 53)"
    by (simp only: of_int_le_iff)
  then have "of_int (round_half_even (x / ?u)) * ?u \<le> 2 ^ 53 * ?u" using u by simp
  then show ?thesis using assms by (simp add: fl_alt pow2_split_upper)
qed

lemma fl_lower:
  assumes "power_int 2 (expo x) \<le> x"
  shows "power_int 2 (expo x) \<le> fl x"
proof -
  let ?u = "power_int 2 (expo x - 52) :: rat"
  have u: "0 < ?u" by simp
  have x: "0 < x" using assms pow2_pos[of "expo x"] by linarith
  have "2 ^ 52 * ?u \<le> x" using assms by (subst (asm) pow2_split_lower)
  then have "of_int (2 ^ 52) \<le> x / ?u" using u by (simp add: field_simps)
  then have "round_half_even (of_int (2 ^ 52)) \<le> round_half_even (x / ?u)" by (rule rhe_mono)
  then have "2 ^ 52 \<le> round_half_even (x / ?u)" by (simp only: rhe_of_int)
  then have "(of_int (2 ^ 52) :: rat) \<le> of_int (round_half_even (x / ?u))"
    by (simp only: of_int_le_iff)
  then have "2 ^ 52 * ?u \<le> of_int (round_half_even (x / ?u)) * ?u" using u by simp
  then show ?thesis using x by (subst pow2_split_lower) (simp add: fl_alt)
qed

lemma fl_mono_pos:
  assumes "0 < x" and "x \<le> y"
  shows "fl x \<le> fl y"
proof -
  have y: "0 < y" using assms by linarith
  have le: "expo x \<le> expo y" using ilog2_mono[of x y] assms y by (simp add: expo_def)
  show ?thesis
  proof (cases "expo x = expo y")
    case True
    let ?u = "power_int 2 (expo y - 52) :: rat"
    have u: "0 < ?u" by simp
    have "x / ?u \<le> y / ?u" using assms(2) u by (simp add: divide_right_mono)
    then have "round_half_even (x / ?u) \<le> round_half_even (y / ?u)" by (rule rhe_mono)
    then have "(of_int (round_half_even (x / ?u)) :: rat) \<le> of_int (round_half_even (y / ?u))"
      by (simp only: of_int_le_iff)
    then have "of_int (round_half_even (x / ?u)) * ?u \<le> of_int (round_half_even (y / ?u)) * ?u"
      using u by simp
    then show ?thesis using assms(1) y True by (simp add: fl_alt)
  next
    case False
    then have lt: "expo x + 1 \<le> expo y" using le by simp
    then have ey: "expo y = ilog2 y" using y by (simp add: expo_def max_def split: if_splits)
    have "power_int 2 (expo y) \<le> y" unfolding ey using y by (rule ilog2_bounds)
    then have "power_int 2 (expo y) \<le> fl y" by (rule fl_lower)
    moreover have "fl x \<le> power_int 2 (expo x + 1)" using assms(1) by (rule fl_upper)
    moreover have "(power_int 2 (expo x + 1) :: rat) \<le> power_int 2 (expo y)"
      using lt by (intro power_int_increasing) simp_all
    ultimately show ?thesis by linarith
  qed
qed

text \<open>Rounding is monotone.\<close>

lemma fl_mono:
  assumes "x \<le> y"
  shows "fl x \<le> fl y"
proof -
  consider "0 < x" | "x \<le> 0" "0 \<le> y" | "y < 0" by linarith
  then show ?thesis
  proof cases
    case 1
    then show ?thesis using assms by (rule fl_mono_pos)
  next
    case 2
    have "0 \<le> fl (- x)" using 2(1) by (intro fl_nonneg) simp
    then have "fl x \<le> 0" by (simp add: fl_uminus)
    moreover have "0 \<le> fl y" using 2(2) by (rule fl_nonneg)
    ultimately show ?thesis by linarith
  next
    case 3
    then have "fl (- y) \<le> fl (- x)" using assms by (intro fl_mono_pos) simp_all
    then show ?thesis by (simp add: fl_uminus)
  qed
qed

text \<open>On a normal binade the rounding is the rounding of the 53-bit significand.\<close>

lemma fl_binade:
  assumes "power_int 2 e \<le> x" and "x < power_int 2 (e + 1)" and "- 1022 \<le> e"
  shows "fl x = of_int (round_half_even (x / power_int 2 (e - 52))) * power_int 2 (e - 52)"
proof -
  have x: "0 < x" using assms(1) pow2_pos[of e] by linarith
  have "ilog2 x = e" using assms(1,2) by (rule ilog2_unique)
  then have "expo x = e" using x assms(3) by (simp add: expo_def)
  then show ?thesis using x by (simp add: fl_alt)
qed

lemma abs_scale:
  fixes a x u h :: rat
  assumes "0 < u" and "\<bar>a - x / u\<bar> \<le> h"
  shows "\<bar>a * u - x\<bar> \<le> h * u"
proof -
  have "a * u - x = (a - x / u) * u" using assms(1) by (simp add: field_simps)
  then have "\<bar>a * u - x\<bar> = \<bar>a - x / u\<bar> * u" using assms(1) by (simp add: abs_mult)
  then show ?thesis using assms by simp
qed

text \<open>The relative error of a rounding in the normal range is at most \<open>2\<^sup>-\<^sup>5\<^sup>3\<close>.\<close>

lemma fl_err:
  assumes "power_int 2 (- 1022) \<le> x"
  shows "\<bar>fl x - x\<bar> \<le> x / 2 ^ 53"
proof -
  have x: "0 < x" using assms pow2_pos[of "- 1022"] by linarith
  have "(power_int 2 (- 1022) :: rat) < power_int 2 (ilog2 x + 1)"
    using ilog2_bounds(2)[OF x] assms by linarith
  then have "- 1022 < ilog2 x + 1" by (rule pow2_less_cancel)
  then have e: "expo x = ilog2 x" using x by (simp add: expo_def)
  let ?u = "power_int 2 (expo x - 52) :: rat"
  have u: "0 < ?u" by simp
  have "\<bar>of_int (round_half_even (x / ?u)) - x / ?u\<bar> \<le> 1 / 2" by (rule rhe_err)
  then have "\<bar>of_int (round_half_even (x / ?u)) * ?u - x\<bar> \<le> 1 / 2 * ?u"
    by (rule abs_scale[OF u])
  then have 1: "\<bar>fl x - x\<bar> \<le> ?u / 2" using x by (simp add: fl_alt)
  have "2 ^ 52 * ?u \<le> x"
    using ilog2_bounds(1)[OF x] unfolding e[symmetric] by (subst (asm) pow2_split_lower)
  then have "?u / 2 \<le> x / 2 ^ 53" by simp
  with 1 show ?thesis by linarith
qed

lemma fl_binade_1:
  assumes "2 \<le> y" and "y < 4"
  shows "fl y = of_int (round_half_even (y * 2 ^ 51)) / 2 ^ 51"
proof -
  have p: "(power_int 2 (1 - 52) :: rat) = 1 / 2 ^ 51" by (simp add: power_int_minus_divide)
  have "fl y = of_int (round_half_even (y / power_int 2 (1 - 52))) * power_int 2 (1 - 52)"
    using assms by (intro fl_binade) simp_all
  then show ?thesis unfolding p by simp
qed

lemma fl_binade_7:
  assumes "128 \<le> y" and "y < 256"
  shows "fl y = of_int (round_half_even (y * 2 ^ 45)) / 2 ^ 45"
proof -
  have p: "(power_int 2 (7 - 52) :: rat) = 1 / 2 ^ 45" by (simp add: power_int_minus_divide)
  have "fl y = of_int (round_half_even (y / power_int 2 (7 - 52))) * power_int 2 (7 - 52)"
    using assms by (intro fl_binade) simp_all
  then show ?thesis unfolding p by simp
qed

section \<open>The speaking-rate estimator\<close>

text \<open>
  In exact arithmetic \<open>s * 2.5 / s * 60\<close> is \<open>150\<close>. In binary64 the product \<open>s * 2.5\<close>
  is rounded first, and the quotient and the final product are rounded again: the result
  is \<open>150\<close> or one of its two neighbours among the doubles, which are \<open>2\<^sup>-\<^sup>4\<^sup>5\<close> away.
\<close>

lemma wpm_values:
  assumes s: "power_int 2 (- 1022) \<le> s"
  shows "fl (fl (fl (s * (5 / 2)) / s) * 60) \<in> {150 - 1 / 2 ^ 45, 150, 150 + 1 / 2 ^ 45}"
proof -
  have s0: "0 < s" using s pow2_pos[of "- 1022"] by linarith
  define ew where "ew = fl (s * (5 / 2))"
  define y where "y = ew / s"
  define k where "k = round_half_even (y * 2 ^ 51)"
  have "power_int 2 (- 1022) \<le> s * (5 / 2)" using s s0 by linarith
  then have "\<bar>ew - s * (5 / 2)\<bar> \<le> s * (5 / 2) / 2 ^ 53" unfolding ew_def by (rule fl_err)
  moreover have "ew - s * (5 / 2) = (y - 5 / 2) * s" using s0 by (simp add: y_def field_simps)
  ultimately have "\<bar>y - 5 / 2\<bar> * s \<le> (5 / 2 / 2 ^ 53) * s" using s0 by (simp add: abs_mult)
  then have ybd: "\<bar>y - 5 / 2\<bar> \<le> 5 / 2 / 2 ^ 53" using s0 by (simp only: mult_le_cancel_right_pos)
  moreover have small: "(5 / 2 / 2 ^ 53 :: rat) \<le> 1 / 2" by simp
  ultimately have y24: "2 \<le> y" "y < 4" by (simp_all only: abs_le_iff) linarith+
  have fy: "fl y = of_int k / 2 ^ 51" unfolding k_def using y24 by (rule fl_binade_1)
  have "\<bar>of_int k - y * 2 ^ 51\<bar> \<le> 1 / 2" unfolding k_def by (rule rhe_err)
  moreover have "\<bar>y * 2 ^ 51 - 5 * 2 ^ 50\<bar> \<le> 5 / 8"
  proof -
    have "y * 2 ^ 51 - 5 * 2 ^ 50 = (y - 5 / 2) * 2 ^ 51" by (simp add: algebra_simps)
    then have "\<bar>y * 2 ^ 51 - 5 * 2 ^ 50\<bar> = \<bar>(y - 5 / 2) * 2 ^ 51\<bar>" by (rule arg_cong)
    also have "\<dots> = \<bar>y - 5 / 2\<bar> * 2 ^ 51" by (rule abs_mult_pos[symmetric]) simp
    also have "\<dots> \<le> 5 / 2 / 2 ^ 53 * 2 ^ 51"
      using ybd by (simp only: mult_le_cancel_right_pos zero_less_power zero_less_numeral)
    finally show ?thesis by simp
  qed
  ultimately have "\<bar>(of_int k :: rat) - 5 * 2 ^ 50\<bar> \<le> 9 / 8" unfolding abs_le_iff by linarith
  then have "\<bar>(of_int (k - 5 * 2 ^ 50) :: rat)\<bar> < of_int 2" by simp
  then have "\<bar>k - 5 * 2 ^ 50\<bar> < 2" by (simp only: of_int_abs[symmetric] of_int_less_iff)
  then consider "k = 5 * 2 ^ 50 - 1" | "k = 5 * 2 ^ 50" | "k = 5 * 2 ^ 50 + 1" by linarith
  then have "fl (of_int k / 2 ^ 51 * 60) \<in> {150 - 1 / 2 ^ 45, 150, 150 + 1 / 2 ^ 45}"
  proof cases
    case 1
    have "fl (of_int k / 2 ^ 51 * 60) =
        of_int (round_half_even ((of_int k / 2 ^ 51 * 60) * 2 ^ 45)) / 2 ^ 45"
      unfolding 1 by (rule fl_binade_7) simp_all
    also have "round_half_even ((of_int k / 2 ^ 51 * 60) * 2 ^ 45) = 150 * 2 ^ 45 - 1"
      unfolding 1 by (rule rhe_nearest) simp_all
    finally show ?thesis by simp
  next
    case 2
    have "fl (of_int k / 2 ^ 51 * 60) =
        of_int (round_half_even ((of_int k / 2 ^ 51 * 60) * 2 ^ 45)) / 2 ^ 45"
      unfolding 2 by (rule fl_binade_7) simp_all
    also have "round_half_even ((of_int k / 2 ^ 51 * 60) * 2 ^ 45) = 150 * 2 ^ 45"
      unfolding 2 by (rule rhe_nearest) simp_all
    finally show ?thesis by simp
  next
    case 3
    have "fl (of_int k / 2 ^ 51 * 60) =
        of_int (round_half_even ((of_int k / 2 ^ 51 * 60) * 2 ^ 45)) / 2 ^ 45"
      unfolding 3 by (rule fl_binade_7) simp_all
    also have "round_half_even ((of_int k / 2 ^ 51 * 60) * 2 ^ 45) = 150 * 2 ^ 45 + 1"
      unfolding 3 by (rule rhe_nearest) simp_all
    finally show ?thesis by simp
  qed
  then show ?thesis unfolding fy[symmetric] y_def ew_def .
qed

lemma speaking_time_example:
  "speaking_time 22050 (replicate 35291 0) [] = 1802001524371113 / 1125899906842624"
proof -
  have a: "fl (35291 / 22050) = 1802001524371113 / 1125899906842624" by code_simp
  have b: "fl (1802001524371113 / 1125899906842624) = 1802001524371113 / 1125899906842624"
    by code_simp
  show ?thesis by (simp add: speaking_time_def a b)
qed

lemma calculate_speaking_rate_example:
  "calculate_speaking_rate 22050 (replicate 35291 0) [] [] = Inr (150 - 1 / 2 ^ 45)"
proof -
  have c: "fl (1802001524371113 / 1125899906842624 * (5 / 2)) =
      2252501905463891 / 562949953421312"
    by code_simp
  have d: "fl (2252501905463891 / 562949953421312 / (1802001524371113 / 1125899906842624)) =
      5629499534213119 / 2251799813685248"
    by code_simp
  have e: "fl (5629499534213119 / 2251799813685248 * 60) = 150 - 1 / 2 ^ 45" by code_simp
  show ?thesis unfolding calculate_speaking_rate_def Let_def speaking_time_example c d e by simp
qed

text \<open>
  Two cases in which every intermediate value is a double: ten seconds with one pause of
  two seconds give exactly \<open>150\<close>, and five seconds with two pauses of five seconds give
  \<open>0\<close>.
\<close>

lemma calculate_speaking_rate_ten_seconds:
  "calculate_speaking_rate 1 (replicate 10 0) [] [2] = Inr 150"
proof -
  have a: "fl 2 = 2" "fl 8 = 8" "fl 10 = 10" "fl 20 = 20" "fl (5 / 2) = 5 / 2" "fl 150 = 150"
    by code_simp+
  show ?thesis
    by (simp add: calculate_speaking_rate_def speaking_time_def py_sum_def Let_def a)
qed

lemma calculate_speaking_rate_all_pause:
  "calculate_speaking_rate 1 (replicate 5 0) [] [5, 5] = Inr 0"
proof -
  have a: "fl 5 = 5" "fl 10 = 10" "fl (- 5) = - 5"
    by code_simp+
  show ?thesis
    by (simp add: calculate_speaking_rate_def speaking_time_def py_sum_def Let_def a)
qed

text \<open>
  Claim C1, as the code has it. With \<open>s\<close> the speaking time (total duration minus the
  pauses): the estimator returns \<open>0\<close> when \<open>s \<le> 0\<close>; when \<open>s\<close> is positive and in the
  normal range of binary64 it returns \<open>150\<close> or one of the two doubles next to \<open>150\<close>,
  that is \<open>150 - 2\<^sup>-\<^sup>4\<^sup>5\<close> or \<open>150 + 2\<^sup>-\<^sup>4\<^sup>5\<close>.
\<close>

theorem calculate_speaking_rate_value:
  assumes "0 < sr"
  shows "(speaking_time sr audio pauses \<le> 0 \<longrightarrow>
            calculate_speaking_rate sr audio energy pauses = Inr 0) \<and>
         (power_int 2 (- 1022) \<le> speaking_time sr audio pauses \<and>
          speaking_time sr audio pauses < 2 ^ 1022 \<longrightarrow>
            (\<exists>w. calculate_speaking_rate sr audio energy pauses = Inr w \<and>
                 w \<in> {150 - 1 / 2 ^ 45, 150, 150 + 1 / 2 ^ 45}))"
proof (intro conjI impI)
  assume "speaking_time sr audio pauses \<le> 0"
  then show "calculate_speaking_rate sr audio energy pauses = Inr 0"
    using assms by (simp add: calculate_speaking_rate_def Let_def)
next
  let ?s = "speaking_time sr audio pauses"
  assume "power_int 2 (- 1022) \<le> ?s \<and> ?s < 2 ^ 1022"
  then have s: "power_int 2 (- 1022) \<le> ?s" ..
  have s0: "0 < ?s" using s pow2_pos[of "- 1022"] by linarith
  have "calculate_speaking_rate sr audio energy pauses = Inr (fl (fl (fl (?s * (5 / 2)) / ?s) * 60))"
    using assms s0 by (simp add: calculate_speaking_rate_def Let_def)
  then show "\<exists>w. calculate_speaking_rate sr audio energy pauses = Inr w \<and>
                 w \<in> {150 - 1 / 2 ^ 45, 150, 150 + 1 / 2 ^ 45}"
    using wpm_values[OF s] by blast
qed

text \<open>
  The theorem at a recording of 35291 samples at 22050 Hz without pauses: the speaking
  time is about 1.6 seconds, well inside the normal range.
\<close>

theorem calculate_speaking_rate_value_witness:
  "0 < (22050 :: nat) \<and>
   power_int 2 (- 1022) \<le> speaking_time 22050 (replicate 35291 0) [] \<and>
   speaking_time 22050 (replicate 35291 0) [] < 2 ^ 1022 \<and>
   (\<exists>w. calculate_speaking_rate 22050 (replicate 35291 0) [] [] = Inr w \<and>
        w \<in> {150 - 1 / 2 ^ 45, 150, 150 + 1 / 2 ^ 45})"
proof -
  have r: "power_int 2 (- 1022) \<le> speaking_time 22050 (replicate 35291 0) [] \<and>
           speaking_time 22050 (replicate 35291 0) [] < 2 ^ 1022"
    unfolding speaking_time_example by (simp add: power_int_minus_divide)
  have "0 < (22050 :: nat)" by simp
  from calculate_speaking_rate_value[OF this, of "replicate 35291 0" "[]" "[]"] r
  show ?thesis by simp
qed

text \<open>
  Claim C1 as stated fails: for that recording the speaking time is positive and the
  estimator returns \<open>150 - 2\<^sup>-\<^sup>4\<^sup>5\<close> (Python prints \<^verbatim>\<open>149.99999999999997\<close>), not \<open>150\<close>.
\<close>

theorem calculate_speaking_rate_not_150:
  "0 < speaking_time 22050 (replicate 35291 0) [] \<and>
   calculate_speaking_rate 22050 (replicate 35291 0) [] [] = Inr (150 - 1 / 2 ^ 45) \<and>
   calculate_speaking_rate 22050 (replicate 35291 0) [] [] \<noteq> Inr 150"
  unfolding speaking_time_example calculate_speaking_rate_example by simp

section \<open>Pause segmentation\<close>

text \<open>The loop on times computes the durations of the intervals found by the loop on indices.\<close>

lemma pause_loop_runs:
  assumes "in_pause \<Longrightarrow> pause_start = ft a"
  shows "snd (snd (pause_loop ft i fs (in_pause, pause_start, ds))) =
         ds @ map (\<lambda>(a, b). fl (ft b - ft a)) (pause_runs i (if in_pause then Some a else None) fs)"
  using assms
proof (induction fs arbitrary: i in_pause pause_start ds a)
  case Nil
  then show ?case by simp
next
  case (Cons f fs)
  show ?case
  proof (cases in_pause)
    case True
    then have ps: "pause_start = ft a" using Cons.prems by simp
    show ?thesis
    proof (cases f)
      case True
      with \<open>in_pause\<close> show ?thesis using Cons.IH[of True pause_start a "Suc i" ds] ps by simp
    next
      case False
      with \<open>in_pause\<close> show ?thesis
        using Cons.IH[of False pause_start a "Suc i" "ds @ [fl (ft i - pause_start)]"] ps by simp
    qed
  next
    case False
    show ?thesis
    proof (cases f)
      case True
      with \<open>\<not> in_pause\<close> show ?thesis using Cons.IH[of True "ft i" i "Suc i" ds] by simp
    next
      case False
      with \<open>\<not> in_pause\<close> show ?thesis using Cons.IH[of False pause_start a "Suc i" ds] by simp
    qed
  qed
qed

lemma pause_runs_bounds:
  assumes "(a, b) \<in> set (pause_runs i opened fs)" and "\<And>a'. opened = Some a' \<Longrightarrow> a' < i"
  shows "i \<le> b \<and> (opened = Some a \<or> i \<le> a) \<and> a < b"
  using assms
proof (induction i opened fs rule: pause_runs.induct)
  case (1 i opened)
  then show ?case by simp
next
  case (2 i f fs)
  then show ?case by (fastforce split: if_splits)
next
  case (3 i a' f fs)
  then show ?case by (fastforce split: if_splits)
qed

lemma pause_runs_sorted:
  assumes "\<And>a'. opened = Some a' \<Longrightarrow> a' < i"
  shows "sorted_wrt (\<lambda>(a, b) (c, d). b < c) (pause_runs i opened fs)"
  using assms
proof (induction i opened fs rule: pause_runs.induct)
  case (1 i opened)
  then show ?case by simp
next
  case (2 i f fs)
  then show ?case by simp
next
  case (3 i a' f fs)
  show ?case
  proof (cases f)
    case True
    then show ?thesis using 3 by simp
  next
    case False
    have "\<And>c d. (c, d) \<in> set (pause_runs (Suc i) None fs) \<Longrightarrow> i < c"
      using pause_runs_bounds[of _ _ "Suc i" None fs] by fastforce
    then show ?thesis using False 3 by auto
  qed
qed

lemma pause_runs_set:
  assumes "open_ok pre opened"
  shows "set (pause_runs (length pre) opened fs) =
         {(a, b). recorded_pause (pre @ fs) a b \<and> length pre \<le> b}"
  using assms
proof (induction fs arbitrary: pre opened)
  case Nil
  then show ?case by (auto simp: recorded_pause_def)
next
  case (Cons f fs)
  let ?n = "length pre"
  let ?F = "pre @ f # fs"
  have app: "pre @ f # fs = (pre @ [f]) @ fs" by simp
  have len: "length (pre @ [f]) = Suc ?n" by simp
  have Fn: "?F ! ?n = f" by simp
  have Fpre: "\<And>k. k < ?n \<Longrightarrow> ?F ! k = pre ! k" by (simp add: nth_append)
  have rhs: "{(a, b). recorded_pause ?F a b \<and> ?n \<le> b} =
      {(a, b). recorded_pause ?F a ?n \<and> b = ?n} \<union>
      {(a, b). recorded_pause ?F a b \<and> Suc ?n \<le> b}"
  proof -
    have "(recorded_pause ?F a b \<and> ?n \<le> b) \<longleftrightarrow>
        (recorded_pause ?F a ?n \<and> b = ?n) \<or> (recorded_pause ?F a b \<and> Suc ?n \<le> b)" for a b
    proof (cases "b = ?n")
      case True
      then show ?thesis by simp
    next
      case False
      then have "?n \<le> b \<longleftrightarrow> Suc ?n \<le> b" by linarith
      then show ?thesis using False by simp
    qed
    then show ?thesis by auto
  qed
  show ?case
  proof (cases opened)
    case None
    then have ok: "pre = [] \<or> \<not> last pre" using Cons.prems by (simp add: open_ok_def)
    have none: "\<And>a. \<not> recorded_pause ?F a ?n"
    proof
      fix a assume rp: "recorded_pause ?F a ?n"
      then have a: "a < ?n" and all: "\<forall>k \<in> {a..<?n}. ?F ! k"
        unfolding recorded_pause_def by blast+
      then have "pre \<noteq> []" by auto
      moreover have "?n - 1 \<in> {a..<?n}" using a by auto
      then have "?F ! (?n - 1)" using all by blast
      then have "pre ! (?n - 1)" using a Fpre[of "?n - 1"] by simp
      then have "last pre" using \<open>pre \<noteq> []\<close> by (simp add: last_conv_nth)
      ultimately show False using ok by simp
    qed
    show ?thesis
    proof (cases f)
      case True
      have "open_ok (pre @ [f]) (Some ?n)"
      proof (cases "pre = []")
        case True
        then show ?thesis using \<open>f\<close> by (simp add: open_ok_def)
      next
        case False
        then have "\<not> last pre" using ok by simp
        then have "\<not> pre ! (?n - 1)" using False by (simp add: last_conv_nth)
        moreover have "0 < ?n" using False by simp
        ultimately show ?thesis using \<open>f\<close> by (auto simp: open_ok_def nth_append less_Suc_eq)
      qed
      from Cons.IH[OF this] have IH: "set (pause_runs (Suc ?n) (Some ?n) fs) =
          {(a, b). recorded_pause ?F a b \<and> Suc ?n \<le> b}" by simp
      have L: "pause_runs ?n opened (f # fs) = pause_runs (Suc ?n) (Some ?n) fs"
        using None True by simp
      have E: "{(a, b). recorded_pause ?F a ?n \<and> b = ?n} = {}" using none by auto
      show ?thesis unfolding L rhs E by (simp add: IH)
    next
      case False
      have "open_ok (pre @ [f]) None" using False by (simp add: open_ok_def)
      from Cons.IH[OF this] have IH: "set (pause_runs (Suc ?n) None fs) =
          {(a, b). recorded_pause ?F a b \<and> Suc ?n \<le> b}" by simp
      have L: "pause_runs ?n opened (f # fs) = pause_runs (Suc ?n) None fs"
        using None False by simp
      have E: "{(a, b). recorded_pause ?F a ?n \<and> b = ?n} = {}" using none by auto
      show ?thesis unfolding L rhs E by (simp add: IH)
    qed
  next
    case (Some a0)
    then have ok: "a0 < ?n" "\<forall>k. a0 \<le> k \<and> k < ?n \<longrightarrow> pre ! k" "a0 = 0 \<or> \<not> pre ! (a0 - 1)"
      using Cons.prems by (simp_all add: open_ok_def)
    show ?thesis
    proof (cases f)
      case True
      have none: "\<And>a. \<not> recorded_pause ?F a ?n" using True by (simp add: recorded_pause_def)
      have "open_ok (pre @ [f]) (Some a0)"
        using ok True by (auto simp: open_ok_def nth_append less_Suc_eq)
      from Cons.IH[OF this] have IH: "set (pause_runs (Suc ?n) (Some a0) fs) =
          {(a, b). recorded_pause ?F a b \<and> Suc ?n \<le> b}" by simp
      have L: "pause_runs ?n opened (f # fs) = pause_runs (Suc ?n) (Some a0) fs"
        using Some True by simp
      have E: "{(a, b). recorded_pause ?F a ?n \<and> b = ?n} = {}" using none by auto
      show ?thesis unfolding L rhs E by (simp add: IH)
    next
      case False
      have one: "\<And>a. recorded_pause ?F a ?n \<longleftrightarrow> a = a0"
      proof
        fix a assume rp: "recorded_pause ?F a ?n"
        then have a: "a < ?n" and all: "\<forall>k \<in> {a..<?n}. ?F ! k"
          and st: "a = 0 \<or> \<not> ?F ! (a - 1)" unfolding recorded_pause_def by blast+
        show "a = a0"
        proof (rule ccontr)
          assume "a \<noteq> a0"
          then consider "a < a0" | "a0 < a" by linarith
          then show False
          proof cases
            case 1
            then have "a0 - 1 \<in> {a..<?n}" using ok(1) by auto
            then have "?F ! (a0 - 1)" using all by blast
            then have "pre ! (a0 - 1)" using ok(1) Fpre[of "a0 - 1"] by simp
            then show False using ok(3) 1 by simp
          next
            case 2
            then have "a0 \<le> a - 1 \<and> a - 1 < ?n" using a by linarith
            then have "pre ! (a - 1)" using ok(2) by blast
            then have "?F ! (a - 1)" using a Fpre[of "a - 1"] by simp
            then show False using st 2 by simp
          qed
        qed
      next
        fix a assume "a = a0"
        then show "recorded_pause ?F a ?n"
          using ok False by (auto simp: recorded_pause_def nth_append)
      qed
      have "open_ok (pre @ [f]) None" using False by (simp add: open_ok_def)
      from Cons.IH[OF this] have IH: "set (pause_runs (Suc ?n) None fs) =
          {(a, b). recorded_pause ?F a b \<and> Suc ?n \<le> b}" by simp
      have L: "pause_runs ?n opened (f # fs) = (a0, ?n) # pause_runs (Suc ?n) None fs"
        using Some False by simp
      have E: "{(a, b). recorded_pause ?F a ?n \<and> b = ?n} = {(a0, ?n)}" using one by auto
      show ?thesis unfolding L rhs E by (simp add: IH)
    qed
  qed
qed


text \<open>The times of the frames do not decrease.\<close>

lemma frames_to_time_mono:
  assumes "a \<le> b"
  shows "frames_to_time sr h a \<le> frames_to_time sr h b"
proof -
  have "a * h \<le> b * h" using assms by simp
  then have "(of_nat (a * h) :: rat) \<le> of_nat (b * h)" by (simp only: of_nat_le_iff)
  then have "(of_nat (a * h) :: rat) / of_nat sr \<le> of_nat (b * h) / of_nat sr"
    by (rule divide_right_mono) simp
  then show ?thesis unfolding frames_to_time_def by (rule fl_mono)
qed

lemma percentile_nonempty:
  assumes "energy \<noteq> []"
  shows "percentile ext energy 25 = Inr (percentile_value ext energy 25)"
  using assms by (simp add: percentile_def)

lemma percentile_example:
  "percentile example_externals example_energy 25 = Inr (- (21 / 4))"
  by (simp add: percentile_def example_externals_def example_energy_def)

lemma extract_pauses_runs:
  assumes "percentile ext energy p = Inr threshold"
  shows "extract_pauses ext sr audio energy p =
     Inr (map (\<lambda>(a, b). fl (frames_to_time sr 512 b - frames_to_time sr 512 a))
            (pause_runs 0 None (map (\<lambda>e. e < threshold) energy)))"
proof -
  let ?ft = "frames_to_time sr 512"
  let ?flags = "map (\<lambda>e. e < threshold) energy"
  have "snd (snd (pause_loop ?ft 0 ?flags (False, 0, []))) =
      map (\<lambda>(a, b). fl (?ft b - ?ft a)) (pause_runs 0 None ?flags)"
    using pause_loop_runs[of False 0 ?ft 0 0 ?flags "[]"] by simp
  then show ?thesis
    by (auto simp: extract_pauses_def assms Let_def split: prod.splits)
qed

lemma frames_to_time_examples:
  "frames_to_time 22050 512 3 = 5019522196927769 / 72057594037927936"
  "frames_to_time 22050 512 4 = 6692696262570359 / 72057594037927936"
  "frames_to_time 22050 512 6 = 5019522196927769 / 36028797018963968"
  "frames_to_time 22050 512 7 = 732013653718633 / 4503599627370496"
proof -
  have "fl (1536 / 22050) = 5019522196927769 / 72057594037927936" by code_simp
  then show "frames_to_time 22050 512 3 = 5019522196927769 / 72057594037927936"
    by (simp add: frames_to_time_def)
  have "fl (2048 / 22050) = 6692696262570359 / 72057594037927936" by code_simp
  then show "frames_to_time 22050 512 4 = 6692696262570359 / 72057594037927936"
    by (simp add: frames_to_time_def)
  have "fl (3072 / 22050) = 5019522196927769 / 36028797018963968" by code_simp
  then show "frames_to_time 22050 512 6 = 5019522196927769 / 36028797018963968"
    by (simp add: frames_to_time_def)
  have "fl (3584 / 22050) = 732013653718633 / 4503599627370496" by code_simp
  then show "frames_to_time 22050 512 7 = 732013653718633 / 4503599627370496"
    by (simp add: frames_to_time_def)
qed

lemma pause_runs_example:
  "pause_runs 0 None (map (\<lambda>e. e < - (21 / 4)) example_energy) = [(3, 4), (6, 7)]"
  by (simp add: example_energy_def eval_nat_numeral)

text \<open>
  An energy trace with three runs of quiet frames, the last one at the end of the trace:
  two pauses of one frame each are recorded, the trailing one is not.
\<close>

lemma extract_pauses_example:
  "extract_pauses example_externals 22050 [] example_energy 25 =
     Inr [836587032821295 / 36028797018963968, 836587032821295 / 36028797018963968]"
proof -
  have d: "fl (836587032821295 / 36028797018963968) = 836587032821295 / 36028797018963968"
    by code_simp
  show ?thesis
    unfolding extract_pauses_runs[OF percentile_example] pause_runs_example
    by (simp add: frames_to_time_examples d)
qed


text \<open>
  When the quietest frames make up more than a quarter of the trace, the percentile is
  their own energy and no frame is strictly below it.
\<close>

lemma extract_pauses_threshold_not_below:
  "extract_pauses example_externals sr audio flat_energy 25 = Inr []"
proof -
  have "percentile example_externals flat_energy 25 = Inr (- 5)"
    by (simp add: percentile_def example_externals_def example_energy_def flat_energy_def)
  then show ?thesis by (simp add: extract_pauses_def Let_def flat_energy_def)
qed

text \<open>
  More generally, when no frame is strictly below the value that \<^verbatim>\<open>np.percentile\<close>
  returns, no pause is found.
\<close>

lemma extract_pauses_none_below:
  assumes "energy \<noteq> []" and "\<forall>e \<in> set energy. percentile_value ext energy 25 \<le> e"
  shows "extract_pauses ext sr audio energy 25 = Inr []"
proof -
  have f: "map (\<lambda>e. e < percentile_value ext energy 25) energy = replicate (length energy) False"
    using assms(2) by (auto simp: map_replicate_const[symmetric] intro!: map_cong)
  have r: "pause_runs i None (replicate n False) = []" for i n
    by (induction n arbitrary: i) simp_all
  show ?thesis
    unfolding extract_pauses_runs[OF percentile_nonempty[OF assms(1)]] f r by simp
qed

text \<open>
  Claim C2. For a non-empty energy sequence and a positive sample rate, \<^verbatim>\<open>extract_pauses\<close>
  takes as threshold the value that \<^verbatim>\<open>np.percentile\<close> returns for the energies and
  \<open>q = 25\<close>, and returns the durations \<open>t\<^sub>b - t\<^sub>a\<close>, with \<open>t\<^sub>i = i * 512 / sr\<close> the time of
  frame \<open>i\<close> (each operation rounded to a double), of exactly the intervals \<open>(a, b)\<close> such
  that the frames \<open>a, \<dots>, b - 1\<close> are a maximal run of frames strictly below the threshold
  and frame \<open>b\<close> exists and is not below it; the intervals are in time order. A run that
  lasts until the end of the sequence has no such \<open>b\<close> and is not recorded. Every recorded
  pause starts no later than it ends, and its duration is not negative.
\<close>

theorem extract_pauses_spec:
  assumes "energy \<noteq> []" and "0 < sr"
  shows "\<exists>ivs.
      percentile ext energy 25 = Inr (percentile_value ext energy 25) \<and>
      extract_pauses ext sr audio energy 25 =
        Inr (map (\<lambda>(a, b). fl (fl (of_nat (b * 512) / of_nat sr) - fl (of_nat (a * 512) / of_nat sr))) ivs) \<and>
      set ivs =
        {(a, b). recorded_pause (map (\<lambda>e. e < percentile_value ext energy 25) energy) a b} \<and>
      sorted_wrt (\<lambda>(a, b) (c, d). b < c) ivs \<and>
      (\<forall>(a, b) \<in> set ivs.
          fl (of_nat (a * 512) / of_nat sr) \<le> fl (of_nat (b * 512) / of_nat sr) \<and>
          0 \<le> fl (fl (of_nat (b * 512) / of_nat sr) - fl (of_nat (a * 512) / of_nat sr)))"
proof -
  define threshold where "threshold = percentile_value ext energy 25"
  have thr: "percentile ext energy 25 = Inr threshold"
    unfolding threshold_def using assms(1) by (rule percentile_nonempty)
  define flags where "flags = map (\<lambda>e. e < threshold) energy"
  define ivs where "ivs = pause_runs 0 None flags"
  let ?ft = "frames_to_time sr 512"
  have res: "extract_pauses ext sr audio energy 25 =
      Inr (map (\<lambda>(a, b). fl (?ft b - ?ft a)) ivs)"
    unfolding ivs_def flags_def using thr by (rule extract_pauses_runs)
  have "open_ok [] None" by (simp add: open_ok_def)
  from pause_runs_set[OF this, of flags]
  have st: "set ivs = {(a, b). recorded_pause flags a b}" by (simp add: ivs_def)
  have so: "sorted_wrt (\<lambda>(a, b) (c, d). b < c) ivs"
    unfolding ivs_def by (rule pause_runs_sorted) simp
  have nn: "\<forall>(a, b) \<in> set ivs. ?ft a \<le> ?ft b \<and> 0 \<le> fl (?ft b - ?ft a)"
  proof (intro ballI, clarify)
    fix a b assume "(a, b) \<in> set ivs"
    then have "a < b" unfolding st by (simp add: recorded_pause_def)
    then have le: "?ft a \<le> ?ft b" by (intro frames_to_time_mono) simp
    then have "0 \<le> fl (?ft b - ?ft a)" by (intro fl_nonneg) simp
    with le show "?ft a \<le> ?ft b \<and> 0 \<le> fl (?ft b - ?ft a)" ..
  qed
  show ?thesis
    using thr res st so nn unfolding flags_def frames_to_time_def threshold_def by blast
qed

theorem extract_pauses_spec_witness:
  "example_energy \<noteq> [] \<and> 0 < (22050 :: nat) \<and>
   percentile_value example_externals example_energy 25 = - (21 / 4) \<and>
   (\<exists>ivs.
      percentile example_externals example_energy 25 =
        Inr (percentile_value example_externals example_energy 25) \<and>
      extract_pauses example_externals 22050 [] example_energy 25 =
        Inr (map (\<lambda>(a, b). fl (fl (of_nat (b * 512) / of_nat 22050) -
                              fl (of_nat (a * 512) / of_nat 22050))) ivs) \<and>
      set ivs =
        {(a, b). recorded_pause
           (map (\<lambda>e. e < percentile_value example_externals example_energy 25) example_energy)
           a b} \<and>
      sorted_wrt (\<lambda>(a, b) (c, d). b < c) ivs \<and>
      (\<forall>(a, b) \<in> set ivs.
          fl (of_nat (a * 512) / of_nat 22050) \<le> fl (of_nat (b * 512) / of_nat 22050) \<and>
          0 \<le> fl (fl (of_nat (b * 512) / of_nat 22050) - fl (of_nat (a * 512) / of_nat 22050))))"
proof -
  have h1: "example_energy \<noteq> []" by (simp add: example_energy_def)
  have h2: "0 < (22050 :: nat)" by simp
  have h3: "percentile_value example_externals example_energy 25 = - (21 / 4)"
    by (simp add: example_externals_def)
  show ?thesis
    by (intro conjI) (rule h1, rule h2, rule h3, rule extract_pauses_spec[OF h1 h2])
qed

section \<open>The emotion classifier\<close>

lemma rule_block_snd: "snd (rule_block c body n st) = snd st @ (if c then [n] else [])"
  by (simp add: rule_block_def)

lemma spec_score_Cons:
  "spec_score ((c, n, ws) # table) l = (if c then weight_of ws l else 0) + spec_score table l"
  by (simp add: spec_score_def)

lemma spec_score_Nil: "spec_score [] l = 0"
  by (simp add: spec_score_def)

lemma spec_triggered_Cons:
  "spec_triggered ((c, n, ws) # table) = (if c then [n] else []) @ spec_triggered table"
  by (simp add: spec_triggered_def)

lemma spec_triggered_Nil: "spec_triggered [] = []"
  by (simp add: spec_triggered_def)

lemma emotion_rules_triggered:
  "snd (emotion_rules p r s e) = spec_triggered (spec_rule_table p r s e)"
  unfolding emotion_rules_def Let_def spec_rule_table_def
  by (simp add: rule_block_snd spec_triggered_Cons spec_triggered_Nil split del: if_split)

lemma rule_block_bump2:
  "fst (rule_block c (\<lambda>sc. bump k2 w2 (bump k1 w1 sc)) n st) l =
     fst st l + (if c then (if l = k1 then w1 else 0) + (if l = k2 then w2 else 0) else 0)"
  by (simp add: rule_block_def bump_def)

lemma rule_block_bump1:
  "fst (rule_block c (\<lambda>sc. bump k1 w1 sc) n st) l =
     fst st l + (if c then (if l = k1 then w1 else 0) else 0)"
  by (simp add: rule_block_def bump_def)

lemma emotion_rules_scores:
  "fst (emotion_rules p r s e) l = spec_score (spec_rule_table p r s e) l"
  unfolding emotion_rules_def Let_def spec_rule_table_def
  by (cases l)
     (simp_all add: rule_block_bump2 rule_block_bump1 spec_score_Cons spec_score_Nil weight_of_def
        add.assoc split del: if_split cong: if_cong)


lemma emotion_of_features_scores: "scores (emotion_of_features p r s e) = fst (emotion_rules p r s e)"
  by (simp add: emotion_of_features_def split: prod.splits)

lemma emotion_of_features_rules:
  "rules_triggered (emotion_of_features p r s e) = snd (emotion_rules p r s e)"
  by (simp add: emotion_of_features_def split: prod.splits)

lemma emotion_of_features_best:
  "(dominant_emotion (emotion_of_features p r s e), confidence (emotion_of_features p r s e)) =
     pick_best (fst (emotion_rules p r s e))"
  by (simp add: emotion_of_features_def split: prod.splits)

text \<open>
  Claim C4. For every input quadruple, each of the five scores is the sum of the weights
  that the satisfied rows of the specification's table give to that label, and
  \<^verbatim>\<open>rules_triggered\<close> lists the identifiers of the satisfied rows in table order.
\<close>

theorem emotion_scores_table:
  "scores (emotion_of_features p r s e) l = spec_score (spec_rule_table p r s e) l \<and>
   rules_triggered (emotion_of_features p r s e) = spec_triggered (spec_rule_table p r s e)"
  by (simp add: emotion_of_features_scores emotion_of_features_rules emotion_rules_scores
      emotion_rules_triggered)

text \<open>The five scores, written out.\<close>

lemma score_formulas:
  "fst (emotion_rules p r s e) Happy =
     (if 200 < p then 1 else 0) + ((if 80 < r then 1 else 0) +
     ((if 160 < s then 1 / 2 else 0) + (if 45 < e then 1 / 2 else 0)))"
  "fst (emotion_rules p r s e) Sad =
     (if p < 130 then 1 else 0) + ((if r < 40 then 1 / 2 else 0) +
     ((if s < 110 then 1 / 2 else 0) + (if e < 35 then 1 / 2 else 0)))"
  "fst (emotion_rules p r s e) Angry =
     (if 200 < p then 1 / 2 else 0) + ((if 80 < r then 1 else 0) +
     ((if 160 < s then 1 / 2 else 0) + (if 45 < e then 1 else 0)))"
  "fst (emotion_rules p r s e) Calm =
     (if r < 40 then 1 / 2 else 0) + ((if s < 110 then 1 / 2 else 0) +
     ((if e < 35 then 1 / 2 else 0) +
      (if 110 < s \<and> s < 160 \<and> 35 < e \<and> e < 45 then 1 / 2 else 0)))"
  "fst (emotion_rules p r s e) Neutral =
     (if 130 \<le> p \<and> p \<le> 200 \<and> 40 \<le> r \<and> r \<le> 80 then 1 / 2 else 0) +
     (if 110 < s \<and> s < 160 \<and> 35 < e \<and> e < 45 then 1 / 2 else 0)"
  unfolding emotion_rules_def Let_def
  by (simp_all add: rule_block_bump2 rule_block_bump1 add.assoc split del: if_split cong: if_cong)

lemma scores_nonneg: "0 \<le> fst (emotion_rules p r s e) l"
  by (cases l) (simp_all add: score_formulas add_nonneg_nonneg)

lemma total_ge_half: "1 / 2 \<le> sum_list (map (fst (emotion_rules p r s e)) emotion_keys)"
proof -
  define t1 where "t1 = (if 200 < p then 1 else 0 :: rat)"
  define t2 where "t2 = (if 80 < r then 1 else 0 :: rat)"
  define t5 where "t5 = (if p < 130 then 1 else 0 :: rat)"
  define t6 where "t6 = (if r < 40 then 1 / 2 else 0 :: rat)"
  define t9 where "t9 = (if 130 \<le> p \<and> p \<le> 200 \<and> 40 \<le> r \<and> r \<le> 80 then 1 / 2 else 0 :: rat)"
  have nn: "0 \<le> t1" "0 \<le> t2" "0 \<le> t5" "0 \<le> t6" "0 \<le> t9"
    by (simp_all add: t1_def t2_def t5_def t6_def t9_def)
  have one: "1 / 2 \<le> t1 + t2 + t5 + t6 + t9"
  proof -
    consider "200 < p" | "p < 130" | "80 < r" | "r < 40"
      | "130 \<le> p \<and> p \<le> 200 \<and> 40 \<le> r \<and> r \<le> 80" by linarith
    then show ?thesis
    proof cases
      case 1 then have "t1 = 1" by (simp add: t1_def) with nn show ?thesis by linarith
    next
      case 2 then have "t5 = 1" by (simp add: t5_def) with nn show ?thesis by linarith
    next
      case 3 then have "t2 = 1" by (simp add: t2_def) with nn show ?thesis by linarith
    next
      case 4 then have "t6 = 1 / 2" by (simp add: t6_def) with nn show ?thesis by linarith
    next
      case 5 then have "t9 = 1 / 2" by (simp add: t9_def) with nn show ?thesis by linarith
    qed
  qed
  have h: "t1 + t2 \<le> fst (emotion_rules p r s e) Happy"
    unfolding score_formulas t1_def t2_def by (simp add: add_nonneg_nonneg)
  have sd: "t5 + t6 \<le> fst (emotion_rules p r s e) Sad"
    unfolding score_formulas t5_def t6_def by (simp add: add_nonneg_nonneg)
  have n: "t9 \<le> fst (emotion_rules p r s e) Neutral"
    unfolding score_formulas t9_def by simp
  have "0 \<le> fst (emotion_rules p r s e) Angry" "0 \<le> fst (emotion_rules p r s e) Calm"
    by (rule scores_nonneg)+
  with h sd n one show ?thesis by (simp add: emotion_keys_def)
qed


lemma py_max_by_first_max:
  assumes "\<forall>x \<in> set before0. key x < key best" and "\<forall>x \<in> set after0. key x \<le> key best"
  shows "\<exists>before after.
           before0 @ best # after0 @ ks = before @ py_max_by key best ks # after \<and>
           (\<forall>x \<in> set before. key x < key (py_max_by key best ks)) \<and>
           (\<forall>x \<in> set after. key x \<le> key (py_max_by key best ks))"
  using assms
proof (induction ks arbitrary: best before0 after0)
  case Nil
  then show ?case by auto
next
  case (Cons k ks)
  show ?case
  proof (cases "key best < key k")
    case True
    have 1: "\<forall>x \<in> set (before0 @ best # after0). key x < key k"
      using Cons.prems True by fastforce
    have 2: "\<forall>x \<in> set []. key x \<le> key k" by simp
    from Cons.IH[OF 1 2] show ?thesis using True by simp
  next
    case False
    have 2: "\<forall>x \<in> set (after0 @ [k]). key x \<le> key best"
      using Cons.prems(2) False by auto
    from Cons.IH[OF Cons.prems(1) 2] show ?thesis using False by simp
  qed
qed

lemma pick_best_fst: "fst (pick_best sc) = py_max_by sc Happy [Sad, Angry, Calm, Neutral]"
  by (simp add: pick_best_def Let_def emotion_keys_def)

lemma pick_best_snd:
  "snd (pick_best sc) =
     py_round2 (fl (sc (fst (pick_best sc)) /
       (if sum_list (map sc emotion_keys) = 0 then 1 else sum_list (map sc emotion_keys))))"
  by (simp add: pick_best_def Let_def)

lemma pick_best_first_max:
  "\<exists>before after.
     emotion_keys = before @ fst (pick_best sc) # after \<and>
     (\<forall>l \<in> set before. sc l < sc (fst (pick_best sc))) \<and>
     (\<forall>l \<in> set after. sc l \<le> sc (fst (pick_best sc)))"
  using py_max_by_first_max[of "[]" sc Happy "[]" "[Sad, Angry, Calm, Neutral]"]
  by (simp add: pick_best_fst emotion_keys_def)

lemma emotion_keys_all: "l \<in> set emotion_keys"
  by (cases l) (simp_all add: emotion_keys_def)

lemma pick_best_max: "sc l \<le> sc (fst (pick_best sc))"
proof -
  obtain before after where k: "emotion_keys = before @ fst (pick_best sc) # after"
    and b: "\<forall>l \<in> set before. sc l < sc (fst (pick_best sc))"
    and a: "\<forall>l \<in> set after. sc l \<le> sc (fst (pick_best sc))"
    using pick_best_first_max[of sc] by blast
  have "l \<in> set before \<or> l = fst (pick_best sc) \<or> l \<in> set after"
    using emotion_keys_all[of l] unfolding k by auto
  then show ?thesis using a b by fastforce
qed

lemma fl_1: "fl 1 = 1"
  by code_simp

lemma py_round2_range:
  assumes "0 \<le> x" and "x \<le> 1"
  shows "0 \<le> py_round2 x" and "py_round2 x \<le> 1"
proof -
  have "round_half_even (of_int 0) \<le> round_half_even (x * 100)"
    using assms(1) by (intro rhe_mono) simp
  then have lo: "0 \<le> round_half_even (x * 100)" by (simp only: rhe_of_int)
  have "round_half_even (x * 100) \<le> round_half_even (of_int 100)"
    using assms(2) by (intro rhe_mono) simp
  then have hi: "round_half_even (x * 100) \<le> 100" by (simp only: rhe_of_int)
  have "(0 :: rat) \<le> of_int (round_half_even (x * 100)) / 100" using lo by simp
  then show "0 \<le> py_round2 x" unfolding py_round2_def by (rule fl_nonneg)
  have "(of_int (round_half_even (x * 100)) :: rat) \<le> of_int 100" using hi by (simp only: of_int_le_iff)
  then have "(of_int (round_half_even (x * 100)) :: rat) / 100 \<le> 1" by simp
  then have "fl (of_int (round_half_even (x * 100)) / 100) \<le> fl 1" by (rule fl_mono)
  then show "py_round2 x \<le> 1" unfolding py_round2_def fl_1 .
qed

lemma pick_best_range:
  assumes nn: "\<And>l. 0 \<le> sc l"
  shows "0 \<le> snd (pick_best sc) \<and> snd (pick_best sc) \<le> 1"
proof -
  let ?d = "fst (pick_best sc)"
  let ?total = "sum_list (map sc emotion_keys)"
  let ?T = "if ?total = 0 then 1 else ?total"
  have tot: "?total = sc Happy + sc Sad + sc Angry + sc Calm + sc Neutral"
    by (simp add: emotion_keys_def)
  have le: "sc ?d \<le> ?total"
    unfolding tot using nn[of Happy] nn[of Sad] nn[of Angry] nn[of Calm] nn[of Neutral]
    by (cases ?d) simp_all
  have T: "0 < ?T" "sc ?d \<le> ?T"
    using le nn[of ?d] tot nn[of Happy] nn[of Sad] nn[of Angry] nn[of Calm] nn[of Neutral]
    by (auto split: if_splits)
  have q0: "0 \<le> sc ?d / ?T" using nn[of ?d] T(1) by simp
  have q1: "sc ?d / ?T \<le> 1" using T by simp
  have "0 \<le> fl (sc ?d / ?T)" using q0 by (rule fl_nonneg)
  moreover have "fl (sc ?d / ?T) \<le> fl 1" using q1 by (rule fl_mono)
  ultimately show ?thesis unfolding pick_best_snd fl_1 using py_round2_range by blast
qed

lemma rhe_0: "round_half_even 0 = 0"
  using rhe_of_int[of 0] by simp

lemma pick_best_zero: "pick_best (\<lambda>l. 0) = (Happy, 0)"
  by (simp add: pick_best_def Let_def emotion_keys_def py_round2_def rhe_0)


lemma emotion_of_features_dominant:
  "dominant_emotion (emotion_of_features p r s e) = fst (pick_best (fst (emotion_rules p r s e)))"
  using emotion_of_features_best[of p r s e] by (metis fst_conv)

lemma emotion_of_features_confidence:
  "confidence (emotion_of_features p r s e) = snd (pick_best (fst (emotion_rules p r s e)))"
  using emotion_of_features_best[of p r s e] by (metis snd_conv)

lemma all_high_scores:
  "fst (emotion_rules 220 90 170 50) Happy = 3"
  "fst (emotion_rules 220 90 170 50) Sad = 0"
  "fst (emotion_rules 220 90 170 50) Angry = 3"
  "fst (emotion_rules 220 90 170 50) Calm = 0"
  "fst (emotion_rules 220 90 170 50) Neutral = 0"
  by (simp_all add: score_formulas)

lemma all_low_scores:
  "fst (emotion_rules 100 20 100 20) Happy = 0"
  "fst (emotion_rules 100 20 100 20) Sad = 5 / 2"
  "fst (emotion_rules 100 20 100 20) Angry = 0"
  "fst (emotion_rules 100 20 100 20) Calm = 3 / 2"
  "fst (emotion_rules 100 20 100 20) Neutral = 0"
  by (simp_all add: score_formulas)

text \<open>
  Claim C5. The dominant emotion splits the key order \<open>happy, sad, angry, calm, neutral\<close>
  into the keys before it, which all score strictly less, and the keys after it, which
  score at most as much: it has the maximal score and is the first key with that score.
  For \<open>mean_pitch = 220\<close>, \<open>pitch_range = 90\<close>, \<open>speaking_rate = 170\<close>,
  \<open>avg_energy = 50\<close> the four rules for high values fire, happy and angry both score
  \<open>3\<close>, and the dominant emotion is happy.
\<close>

theorem dominant_emotion_first_max:
  "(\<exists>before after.
      emotion_keys = before @ dominant_emotion (emotion_of_features p r s e) # after \<and>
      (\<forall>l \<in> set before. scores (emotion_of_features p r s e) l <
          scores (emotion_of_features p r s e) (dominant_emotion (emotion_of_features p r s e))) \<and>
      (\<forall>l \<in> set after. scores (emotion_of_features p r s e) l \<le>
          scores (emotion_of_features p r s e) (dominant_emotion (emotion_of_features p r s e)))) \<and>
   (\<forall>l. scores (emotion_of_features p r s e) l \<le>
      scores (emotion_of_features p r s e) (dominant_emotion (emotion_of_features p r s e))) \<and>
   emotion_keys = [Happy, Sad, Angry, Calm, Neutral] \<and>
   rules_triggered (emotion_of_features 220 90 170 50) =
     [''high_mean_pitch'', ''large_pitch_range'', ''fast_speaking_rate'', ''high_energy''] \<and>
   scores (emotion_of_features 220 90 170 50) Happy = 3 \<and>
   scores (emotion_of_features 220 90 170 50) Angry = 3 \<and>
   dominant_emotion (emotion_of_features 220 90 170 50) = Happy"
proof (intro conjI)
  show "\<exists>before after.
      emotion_keys = before @ dominant_emotion (emotion_of_features p r s e) # after \<and>
      (\<forall>l \<in> set before. scores (emotion_of_features p r s e) l <
          scores (emotion_of_features p r s e) (dominant_emotion (emotion_of_features p r s e))) \<and>
      (\<forall>l \<in> set after. scores (emotion_of_features p r s e) l \<le>
          scores (emotion_of_features p r s e) (dominant_emotion (emotion_of_features p r s e)))"
    unfolding emotion_of_features_dominant emotion_of_features_scores
    by (rule pick_best_first_max)
  show "\<forall>l. scores (emotion_of_features p r s e) l \<le>
      scores (emotion_of_features p r s e) (dominant_emotion (emotion_of_features p r s e))"
    unfolding emotion_of_features_dominant emotion_of_features_scores
    by (intro allI pick_best_max)
  show "emotion_keys = [Happy, Sad, Angry, Calm, Neutral]" by (rule emotion_keys_def)
  show "rules_triggered (emotion_of_features 220 90 170 50) =
      [''high_mean_pitch'', ''large_pitch_range'', ''fast_speaking_rate'', ''high_energy'']"
    by (simp add: emotion_of_features_rules emotion_rules_triggered spec_rule_table_def
        spec_triggered_def)
  show "scores (emotion_of_features 220 90 170 50) Happy = 3"
    by (simp add: emotion_of_features_scores all_high_scores)
  show "scores (emotion_of_features 220 90 170 50) Angry = 3"
    by (simp add: emotion_of_features_scores all_high_scores)
  show "dominant_emotion (emotion_of_features 220 90 170 50) = Happy"
    by (simp add: emotion_of_features_dominant pick_best_fst all_high_scores)
qed

text \<open>
  The theorem at \<open>(100, 20, 100, 20)\<close>, where sad wins with \<open>5/2\<close> and happy, the one
  key before it, scores \<open>0\<close>.
\<close>

theorem dominant_emotion_first_max_witness:
  "dominant_emotion (emotion_of_features 100 20 100 20) = Sad \<and>
   scores (emotion_of_features 100 20 100 20) Happy = 0 \<and>
   scores (emotion_of_features 100 20 100 20) Sad = 5 / 2 \<and>
   (\<exists>before after.
      emotion_keys = before @ Sad # after \<and>
      (\<forall>l \<in> set before. scores (emotion_of_features 100 20 100 20) l < 5 / 2) \<and>
      (\<forall>l \<in> set after. scores (emotion_of_features 100 20 100 20) l \<le> 5 / 2))"
proof -
  have d: "dominant_emotion (emotion_of_features 100 20 100 20) = Sad"
    by (simp add: emotion_of_features_dominant pick_best_fst all_low_scores)
  have h: "scores (emotion_of_features 100 20 100 20) Happy = 0"
    by (simp add: emotion_of_features_scores all_low_scores)
  have s: "scores (emotion_of_features 100 20 100 20) Sad = 5 / 2"
    by (simp add: emotion_of_features_scores all_low_scores)
  show ?thesis
    using dominant_emotion_first_max[of 100 20 100 20] unfolding d s using d h s by blast
qed

lemma fl_fifth: "0 < fl (1 / 5)"
proof -
  have "fl (1 / 5) = 3602879701896397 / 18014398509481984" by code_simp
  then show ?thesis by simp
qed

text \<open>
  The quotient \<open>max_score / total\<close> is a quotient of two integers between \<open>1\<close> and \<open>12\<close>
  (the scores are multiples of \<open>1/2\<close> and their sum is at most \<open>6\<close>). For each of these
  quotients, rounding it to a double first does not change its rounding to two decimals.
\<close>

lemma round2_agrees_1: "list_all (\<lambda>a. round2_agrees a 1) [1..1]"
  by code_simp

lemma round2_agrees_2: "list_all (\<lambda>a. round2_agrees a 2) [1..2]"
  by code_simp

lemma round2_agrees_3: "list_all (\<lambda>a. round2_agrees a 3) [1..3]"
  by code_simp

lemma round2_agrees_4: "list_all (\<lambda>a. round2_agrees a 4) [1..4]"
  by code_simp

lemma round2_agrees_5: "list_all (\<lambda>a. round2_agrees a 5) [1..5]"
  by code_simp

lemma round2_agrees_6: "list_all (\<lambda>a. round2_agrees a 6) [1..6]"
  by code_simp

lemma round2_agrees_7: "list_all (\<lambda>a. round2_agrees a 7) [1..7]"
  by code_simp

lemma round2_agrees_8: "list_all (\<lambda>a. round2_agrees a 8) [1..8]"
  by code_simp

lemma round2_agrees_9: "list_all (\<lambda>a. round2_agrees a 9) [1..9]"
  by code_simp

lemma round2_agrees_10: "list_all (\<lambda>a. round2_agrees a 10) [1..10]"
  by code_simp

lemma round2_agrees_11: "list_all (\<lambda>a. round2_agrees a 11) [1..11]"
  by code_simp

lemma round2_agrees_12: "list_all (\<lambda>a. round2_agrees a 12) [1..12]"
  by code_simp

lemma round2_agrees_all:
  assumes "1 \<le> a" and "a \<le> b" and "b \<le> 12"
  shows "round2_agrees a b"
proof -
  have mem: "a \<in> set [1..b]" using assms by simp
  consider "b = 1" | "b = 2" | "b = 3" | "b = 4" | "b = 5" | "b = 6" | "b = 7" | "b = 8"
    | "b = 9" | "b = 10" | "b = 11" | "b = 12" using assms by (atomize_elim) presburger
  then show ?thesis
  proof cases
    case 1
    show ?thesis using round2_agrees_1 mem unfolding 1 list_all_iff by blast
  next
    case 2
    show ?thesis using round2_agrees_2 mem unfolding 2 list_all_iff by blast
  next
    case 3
    show ?thesis using round2_agrees_3 mem unfolding 3 list_all_iff by blast
  next
    case 4
    show ?thesis using round2_agrees_4 mem unfolding 4 list_all_iff by blast
  next
    case 5
    show ?thesis using round2_agrees_5 mem unfolding 5 list_all_iff by blast
  next
    case 6
    show ?thesis using round2_agrees_6 mem unfolding 6 list_all_iff by blast
  next
    case 7
    show ?thesis using round2_agrees_7 mem unfolding 7 list_all_iff by blast
  next
    case 8
    show ?thesis using round2_agrees_8 mem unfolding 8 list_all_iff by blast
  next
    case 9
    show ?thesis using round2_agrees_9 mem unfolding 9 list_all_iff by blast
  next
    case 10
    show ?thesis using round2_agrees_10 mem unfolding 10 list_all_iff by blast
  next
    case 11
    show ?thesis using round2_agrees_11 mem unfolding 11 list_all_iff by blast
  next
    case 12
    show ?thesis using round2_agrees_12 mem unfolding 12 list_all_iff by blast
  qed
qed

lemma total_le_6: "sum_list (map (fst (emotion_rules p r s e)) emotion_keys) \<le> 6"
  unfolding emotion_keys_def by (simp add: score_formulas)

lemma score_half_int: "2 * fst (emotion_rules p r s e) l \<in> \<int>"
  by (cases l) (simp_all add: score_formulas)

lemma confidence_exact_quotient:
  "snd (pick_best (fst (emotion_rules p r s e))) =
     fl (of_int (round_half_even
           (fst (emotion_rules p r s e) (fst (pick_best (fst (emotion_rules p r s e)))) /
            sum_list (map (fst (emotion_rules p r s e)) emotion_keys) * 100)) / 100)"
proof -
  let ?sc = "fst (emotion_rules p r s e)"
  let ?d = "fst (pick_best ?sc)"
  let ?total = "sum_list (map ?sc emotion_keys)"
  have tot: "?total = ?sc Happy + ?sc Sad + ?sc Angry + ?sc Calm + ?sc Neutral"
    by (simp add: emotion_keys_def)
  have half: "1 / 2 \<le> ?total" by (rule total_ge_half)
  have six: "?total \<le> 6" by (rule total_le_6)
  have "2 * ?total = 2 * ?sc Happy + 2 * ?sc Sad + 2 * ?sc Angry + 2 * ?sc Calm + 2 * ?sc Neutral"
    unfolding tot by simp
  also have "\<dots> \<in> \<int>" by (intro Ints_add score_half_int)
  finally obtain b :: int where b: "2 * ?total = of_int b" by (rule Ints_cases)
  obtain a :: int where a: "2 * ?sc ?d = of_int a" using score_half_int[of p r s e ?d] by (rule Ints_cases)
  have le: "?sc ?d \<le> ?total"
    unfolding tot
    using scores_nonneg[of p r s e Happy] scores_nonneg[of p r s e Sad]
      scores_nonneg[of p r s e Angry] scores_nonneg[of p r s e Calm]
      scores_nonneg[of p r s e Neutral]
    by (cases ?d) simp_all
  have "?total \<le> 5 * ?sc ?d"
    unfolding tot
    using pick_best_max[of ?sc Happy] pick_best_max[of ?sc Sad] pick_best_max[of ?sc Angry]
      pick_best_max[of ?sc Calm] pick_best_max[of ?sc Neutral] by linarith
  then have dpos: "0 < ?sc ?d" using half by linarith
  have "(0 :: rat) < of_int a" using dpos a by linarith
  then have a1: "1 \<le> a" by simp
  have "(of_int a :: rat) \<le> of_int b" using le a b by linarith
  then have ab: "a \<le> b" by (simp only: of_int_le_iff)
  have "(of_int b :: rat) \<le> of_int 12" using six b by simp
  then have b12: "b \<le> 12" by (simp only: of_int_le_iff)
  have q: "?sc ?d / ?total = of_int a / of_int b"
  proof -
    have "?sc ?d / ?total = (2 * ?sc ?d) / (2 * ?total)" by simp
    then show ?thesis by (simp only: a b)
  qed
  have "round2_agrees a b" using a1 ab b12 by (rule round2_agrees_all)
  then have "round_half_even (fl (?sc ?d / ?total) * 100) = round_half_even (?sc ?d / ?total * 100)"
    unfolding q round2_agrees_def .
  moreover have "snd (pick_best ?sc) = py_round2 (fl (?sc ?d / ?total))"
    using half by (simp add: pick_best_snd)
  ultimately show ?thesis by (simp add: py_round2_def)
qed

text \<open>
  Claim C6. For every input quadruple the dominant emotion's score is the maximal score;
  the confidence is computed as that score divided by the sum of the five scores (by one
  when the sum is zero), the quotient rounded as a double and then to two decimals; this
  is the exact quotient rounded to two decimals, ties to even, as a double; and the
  confidence lies between \<open>0\<close> and \<open>1\<close>. When all five scores are zero the total is
  taken as one and the confidence is exactly \<open>0\<close>.
\<close>

theorem confidence_range:
  "(\<forall>l. scores (emotion_of_features p r s e) l \<le>
        scores (emotion_of_features p r s e) (dominant_emotion (emotion_of_features p r s e))) \<and>
   confidence (emotion_of_features p r s e) =
     py_round2 (fl (scores (emotion_of_features p r s e) (dominant_emotion (emotion_of_features p r s e)) /
       (if sum_list (map (scores (emotion_of_features p r s e)) emotion_keys) = 0 then 1
        else sum_list (map (scores (emotion_of_features p r s e)) emotion_keys)))) \<and>
   confidence (emotion_of_features p r s e) =
     fl (of_int (round_half_even
           (scores (emotion_of_features p r s e) (dominant_emotion (emotion_of_features p r s e)) /
            sum_list (map (scores (emotion_of_features p r s e)) emotion_keys) * 100)) / 100) \<and>
   0 \<le> confidence (emotion_of_features p r s e) \<and>
   confidence (emotion_of_features p r s e) \<le> 1 \<and>
   pick_best (\<lambda>l. 0) = (Happy, 0)"
proof (intro conjI)
  show "confidence (emotion_of_features p r s e) =
     fl (of_int (round_half_even
           (scores (emotion_of_features p r s e) (dominant_emotion (emotion_of_features p r s e)) /
            sum_list (map (scores (emotion_of_features p r s e)) emotion_keys) * 100)) / 100)"
    unfolding emotion_of_features_dominant emotion_of_features_scores emotion_of_features_confidence
    by (rule confidence_exact_quotient)
  show "\<forall>l. scores (emotion_of_features p r s e) l \<le>
      scores (emotion_of_features p r s e) (dominant_emotion (emotion_of_features p r s e))"
    unfolding emotion_of_features_dominant emotion_of_features_scores
    by (intro allI pick_best_max)
  show "confidence (emotion_of_features p r s e) =
     py_round2 (fl (scores (emotion_of_features p r s e) (dominant_emotion (emotion_of_features p r s e)) /
       (if sum_list (map (scores (emotion_of_features p r s e)) emotion_keys) = 0 then 1
        else sum_list (map (scores (emotion_of_features p r s e)) emotion_keys))))"
    unfolding emotion_of_features_dominant emotion_of_features_scores emotion_of_features_confidence
    by (rule pick_best_snd)
  have r: "0 \<le> snd (pick_best (fst (emotion_rules p r s e))) \<and>
           snd (pick_best (fst (emotion_rules p r s e))) \<le> 1"
    by (rule pick_best_range) (rule scores_nonneg)
  show "0 \<le> confidence (emotion_of_features p r s e)"
    unfolding emotion_of_features_confidence using r ..
  show "confidence (emotion_of_features p r s e) \<le> 1"
    unfolding emotion_of_features_confidence using r ..
  show "pick_best (\<lambda>l. 0) = (Happy, 0)" by (rule pick_best_zero)
qed

text \<open>
  Claim C10. The pitch conditions cover every quadruple, so at least one rule fires: the
  list of triggered rules is not empty, the sum of the scores is at least \<open>1/2\<close> and so not
  zero, the replacement of a zero total by one never takes effect, and the confidence
  before the rounding to two decimals is strictly positive.
\<close>

theorem some_rule_always_fires:
  "(p < 130 \<or> 200 < p \<or> r < 40 \<or> 80 < r \<or> (130 \<le> p \<and> p \<le> 200 \<and> 40 \<le> r \<and> r \<le> 80)) \<and>
   rules_triggered (emotion_of_features p r s e) \<noteq> [] \<and>
   1 / 2 \<le> sum_list (map (scores (emotion_of_features p r s e)) emotion_keys) \<and>
   sum_list (map (scores (emotion_of_features p r s e)) emotion_keys) \<noteq> 0 \<and>
   0 < fl (scores (emotion_of_features p r s e) (dominant_emotion (emotion_of_features p r s e)) /
          sum_list (map (scores (emotion_of_features p r s e)) emotion_keys)) \<and>
   confidence (emotion_of_features p r s e) =
     py_round2 (fl (scores (emotion_of_features p r s e) (dominant_emotion (emotion_of_features p r s e)) /
          sum_list (map (scores (emotion_of_features p r s e)) emotion_keys)))"
proof -
  let ?sc = "fst (emotion_rules p r s e)"
  let ?d = "fst (pick_best ?sc)"
  let ?total = "sum_list (map ?sc emotion_keys)"
  have cover: "p < 130 \<or> 200 < p \<or> r < 40 \<or> 80 < r \<or>
      (130 \<le> p \<and> p \<le> 200 \<and> 40 \<le> r \<and> r \<le> 80)" by linarith
  have half: "1 / 2 \<le> ?total" by (rule total_ge_half)
  then have pos: "0 < ?total" by linarith
  have "snd (emotion_rules p r s e) \<noteq> []"
    using cover unfolding emotion_rules_triggered spec_rule_table_def
    by (auto simp: spec_triggered_def)
  then have rules: "rules_triggered (emotion_of_features p r s e) \<noteq> []"
    by (simp add: emotion_of_features_rules)
  have "?total = ?sc Happy + ?sc Sad + ?sc Angry + ?sc Calm + ?sc Neutral"
    by (simp add: emotion_keys_def)
  then have "?total \<le> 5 * ?sc ?d"
    using pick_best_max[of ?sc Happy] pick_best_max[of ?sc Sad] pick_best_max[of ?sc Angry]
      pick_best_max[of ?sc Calm] pick_best_max[of ?sc Neutral] by linarith
  then have "1 / 5 \<le> ?sc ?d / ?total" using pos by (simp add: field_simps)
  then have "fl (1 / 5) \<le> fl (?sc ?d / ?total)" by (rule fl_mono)
  then have q: "0 < fl (?sc ?d / ?total)" using fl_fifth by linarith
  have conf: "snd (pick_best ?sc) = py_round2 (fl (?sc ?d / ?total))"
    using pos by (simp add: pick_best_snd)
  show ?thesis
    unfolding emotion_of_features_dominant emotion_of_features_scores emotion_of_features_confidence
    using cover rules half pos q conf by simp
qed


section \<open>Synthesis parameters\<close>

lemma fl_half: "fl (1 / 2) = 1 / 2"
  by code_simp

lemma fl_4: "fl 4 = 4"
  by code_simp

lemma np_clip_mono: "x \<le> y \<Longrightarrow> np_clip x lo hi \<le> np_clip y lo hi"
  by (auto simp: np_clip_def min_def max_def)

lemma np_clip_range: "lo \<le> hi \<Longrightarrow> lo \<le> np_clip x lo hi \<and> np_clip x lo hi \<le> hi"
  by (auto simp: np_clip_def min_def max_def)

text \<open>
  The quotient of a number in the range of the doubles by \<open>150\<close> stays in that range, so
  the division raises only for an integer beyond it.
\<close>

lemma fl_less_pow2:
  assumes "0 < x" and "x < power_int 2 e" and "- 1021 \<le> e"
  shows "fl x \<le> power_int 2 e"
proof -
  have "(power_int 2 (ilog2 x) :: rat) < power_int 2 e"
    using ilog2_bounds(1)[OF assms(1)] assms(2) by linarith
  then have "ilog2 x < e" by (rule pow2_less_cancel)
  then have "expo x + 1 \<le> e" using assms(1,3) by (simp add: expo_def)
  then have "(power_int 2 (expo x + 1) :: rat) \<le> power_int 2 e"
    by (intro power_int_increasing) simp_all
  with fl_upper[OF assms(1)] show ?thesis by linarith
qed

lemma fl_ge_pow2:
  assumes "power_int 2 e \<le> x" and "- 1022 \<le> e"
  shows "power_int 2 e \<le> fl x"
proof -
  have x: "0 < x" using assms(1) pow2_pos[of e] by linarith
  have "(power_int 2 e :: rat) < power_int 2 (ilog2 x + 1)"
    using ilog2_bounds(2)[OF x] assms(1) by linarith
  then have "e < ilog2 x + 1" by (rule pow2_less_cancel)
  then have e: "e \<le> expo x" and ex: "expo x = ilog2 x"
    using assms(2) x by (simp_all add: expo_def)
  have "power_int 2 (expo x) \<le> x" unfolding ex using x by (rule ilog2_bounds)
  then have "power_int 2 (expo x) \<le> fl x" by (rule fl_lower)
  moreover have "(power_int 2 e :: rat) \<le> power_int 2 (expo x)"
    using e by (intro power_int_increasing) simp_all
  ultimately show ?thesis by linarith
qed

lemma fl_abs_bound:
  assumes "\<bar>x\<bar> < power_int 2 e" and "- 1021 \<le> e"
  shows "\<bar>fl x\<bar> \<le> power_int 2 e"
proof -
  consider "x = 0" | "0 < x" | "x < 0" by linarith
  then show ?thesis
  proof cases
    case 1
    then show ?thesis by simp
  next
    case 2
    then have "fl x \<le> power_int 2 e" using assms by (intro fl_less_pow2) simp_all
    moreover have "0 \<le> fl x" using 2 by (intro fl_nonneg) simp
    ultimately show ?thesis by simp
  next
    case 3
    then have "fl (- x) \<le> power_int 2 e" using assms by (intro fl_less_pow2) simp_all
    moreover have "0 \<le> fl (- x)" using 3 by (intro fl_nonneg) simp
    ultimately show ?thesis by (simp add: fl_uminus)
  qed
qed

lemma py_truediv_150:
  assumes "\<bar>x\<bar> < 2 ^ 1024"
  shows "py_truediv x 150 = Inr (fl (x / 150))"
proof -
  have "\<bar>x / 150\<bar> = \<bar>x\<bar> / 150" by simp
  also have "\<dots> < 2 ^ 1024 / 150" using assms by (simp add: divide_strict_right_mono)
  also have "\<dots> < (2 ^ 1023 :: rat)" by simp
  finally have "\<bar>x / 150\<bar> < power_int 2 1023" by simp
  then have "\<bar>fl (x / 150)\<bar> \<le> power_int 2 1023" by (rule fl_abs_bound) simp
  also have "\<dots> < (2 ^ 1024 :: rat)" by simp
  finally show ?thesis by (simp add: py_truediv_def)
qed

lemma py_truediv_overflow: "py_truediv huge_int 150 = Inl OverflowError"
proof -
  have "(power_int 2 1024 :: rat) \<le> huge_int / 150" by (simp add: huge_int_def)
  then have "power_int 2 1024 \<le> fl (huge_int / 150)" by (rule fl_ge_pow2) simp
  then have "(2 ^ 1024 :: rat) \<le> \<bar>fl (huge_int / 150)\<bar>" by simp
  then show ?thesis by (simp add: py_truediv_def)
qed

text \<open>
  What holds of the two normalisers: they return \<open>1\<close> for an absent input; for a number in
  the range of the doubles they return \<open>clamp(x / 150, 0.5, 2.0)\<close> with the quotient
  rounded as a double; the pitch adjustment is \<open>0.5\<close> at \<open>75\<close>, \<open>1\<close> at \<open>150\<close> and \<open>2\<close> at
  \<open>600\<close>; whatever they return lies in \<open>[0.5, 2]\<close>; and they are monotone non-decreasing
  where they return.
\<close>

lemma normalize_for_synthesis_values:
  "normalize_pitch_for_synthesis None = Inr 1"
  "normalize_speed_for_synthesis None = Inr 1"
  "\<bar>x\<bar> < 2 ^ 1024 \<Longrightarrow>
     normalize_pitch_for_synthesis (Some x) = Inr (min (max (fl (x / 150)) (1 / 2)) 2)"
  "\<bar>x\<bar> < 2 ^ 1024 \<Longrightarrow>
     normalize_speed_for_synthesis (Some x) = Inr (min (max (fl (x / 150)) (1 / 2)) 2)"
  "normalize_pitch_for_synthesis (Some 75) = Inr (1 / 2)"
  "normalize_pitch_for_synthesis (Some 150) = Inr 1"
  "normalize_pitch_for_synthesis (Some 600) = Inr 2"
proof -
  show "normalize_pitch_for_synthesis None = Inr 1"
    by (simp add: normalize_pitch_for_synthesis_def)
  show "normalize_speed_for_synthesis None = Inr 1"
    by (simp add: normalize_speed_for_synthesis_def)
  show "normalize_pitch_for_synthesis (Some x) = Inr (min (max (fl (x / 150)) (1 / 2)) 2)"
    if "\<bar>x\<bar> < 2 ^ 1024"
    by (simp add: normalize_pitch_for_synthesis_def py_truediv_150[OF that] np_clip_def)
  show "normalize_speed_for_synthesis (Some x) = Inr (min (max (fl (x / 150)) (1 / 2)) 2)"
    if "\<bar>x\<bar> < 2 ^ 1024"
    by (simp add: normalize_speed_for_synthesis_def py_truediv_150[OF that] np_clip_def)
  have a: "py_truediv 75 150 = Inr (1 / 2)" using py_truediv_150[of 75] by (simp add: fl_half)
  have b: "py_truediv 150 150 = Inr 1" using py_truediv_150[of 150] by (simp add: fl_1)
  have c: "py_truediv 600 150 = Inr 4" using py_truediv_150[of 600] by (simp add: fl_4)
  show "normalize_pitch_for_synthesis (Some 75) = Inr (1 / 2)"
    by (simp add: normalize_pitch_for_synthesis_def a np_clip_def)
  show "normalize_pitch_for_synthesis (Some 150) = Inr 1"
    by (simp add: normalize_pitch_for_synthesis_def b np_clip_def)
  show "normalize_pitch_for_synthesis (Some 600) = Inr 2"
    by (simp add: normalize_pitch_for_synthesis_def c np_clip_def)
qed

lemma normalize_for_synthesis_range:
  "normalize_pitch_for_synthesis v = Inr y \<Longrightarrow> 1 / 2 \<le> y \<and> y \<le> 2"
  "normalize_speed_for_synthesis v = Inr y \<Longrightarrow> 1 / 2 \<le> y \<and> y \<le> 2"
proof -
  have r: "(1 / 2 :: rat) \<le> 2" by simp
  show "normalize_pitch_for_synthesis v = Inr y \<Longrightarrow> 1 / 2 \<le> y \<and> y \<le> 2"
    using np_clip_range[OF r]
    by (auto simp: normalize_pitch_for_synthesis_def split: option.splits sum.splits)
  show "normalize_speed_for_synthesis v = Inr y \<Longrightarrow> 1 / 2 \<le> y \<and> y \<le> 2"
    using np_clip_range[OF r]
    by (auto simp: normalize_speed_for_synthesis_def split: option.splits sum.splits)
qed

lemma py_truediv_mono:
  assumes "a \<le> b" and "py_truediv a 150 = Inr p" and "py_truediv b 150 = Inr q"
  shows "p \<le> q"
proof -
  have "a / 150 \<le> b / 150" using assms(1) by simp
  then have "fl (a / 150) \<le> fl (b / 150)" by (rule fl_mono)
  then show ?thesis using assms(2,3) by (simp add: py_truediv_def split: if_splits)
qed

lemma normalize_for_synthesis_mono:
  assumes "a \<le> b"
  shows "normalize_pitch_for_synthesis (Some a) = Inr y \<Longrightarrow>
         normalize_pitch_for_synthesis (Some b) = Inr z \<Longrightarrow> y \<le> z"
    and "normalize_speed_for_synthesis (Some a) = Inr y \<Longrightarrow>
         normalize_speed_for_synthesis (Some b) = Inr z \<Longrightarrow> y \<le> z"
  using py_truediv_mono[OF assms] np_clip_mono
  by (auto simp: normalize_pitch_for_synthesis_def normalize_speed_for_synthesis_def
      split: sum.splits)

lemma normalize_for_synthesis_overflow:
  "normalize_pitch_for_synthesis (Some huge_int) = Inl OverflowError"
  "normalize_speed_for_synthesis (Some huge_int) = Inl OverflowError"
  by (simp_all add: normalize_pitch_for_synthesis_def normalize_speed_for_synthesis_def
      py_truediv_overflow)

text \<open>
  \<^verbatim>\<open>get_synthesis_parameters\<close> returns the parameters of a stored profile whose pitch and
  rate are in the range of the doubles and whose pause duration is present, and raises for
  every stored profile without a pause duration.
\<close>

lemma get_synthesis_parameters_measured:
  assumes "voice_profiles eng uid = Some profile"
    and "mean_pitch profile = Some p" and "\<bar>p\<bar> < 2 ^ 1024"
    and "speaking_rate_wpm profile = Some w" and "\<bar>w\<bar> < 2 ^ 1024"
    and "average_pause_duration profile = Some d"
  shows "\<exists>params. get_synthesis_parameters ext eng uid = Inr (Some params) \<and>
      pitch_adjust params = min (max (fl (p / 150)) (1 / 2)) 2 \<and>
      speaking_rate_adjust params = min (max (fl (w / 150)) (1 / 2)) 2 \<and>
      pause_duration params = Some d"
  using assms(1,2,4,6)
  by (simp add: get_synthesis_parameters_def Let_def
      normalize_for_synthesis_values(3)[OF assms(3)] normalize_for_synthesis_values(4)[OF assms(5)])

lemma get_synthesis_parameters_no_pause:
  assumes "voice_profiles eng uid = Some profile" and "average_pause_duration profile = None"
  shows "\<exists>e. get_synthesis_parameters ext eng uid = Inl e"
  using assms by (simp add: get_synthesis_parameters_def Let_def split: sum.splits)

lemma load_profile_unmeasured:
  "load_profile ext empty_engine unmeasured_files ''profiles/user1_profile.json'' =
     (Some (VoiceProfile_init ext ''user1'' ''User 1''),
      \<lparr>engine_sr = 22050,
       voice_profiles = [''user1'' \<mapsto> VoiceProfile_init ext ''user1'' ''User 1'']\<rparr>)"
  by (simp add: load_profile_def unmeasured_files_def empty_engine_def endswith_def json_load_def
      to_dict_def VoiceProfile_init_def Let_def)

lemma load_profile_huge_pitch:
  "voice_profiles
     (snd (load_profile ext empty_engine huge_pitch_files ''profiles/user1_profile.json''))
     ''user1'' =
   Some ((VoiceProfile_init ext ''user1'' ''User 1'')
     \<lparr>speaking_rate_wpm := Some 150, average_pause_duration := Some (1 / 4),
      mean_pitch := Some huge_int\<rparr>)"
  by (simp add: load_profile_def huge_pitch_files_def empty_engine_def endswith_def json_load_def
      to_dict_def VoiceProfile_init_def Let_def)

text \<open>
  Claim C7 fails on the code. The two normalisers do return the default \<open>1\<close> for an
  absent input, but the mapping \<^verbatim>\<open>get_synthesis_parameters\<close> raises for stored profiles:
  \<^item> for a profile without a pause duration, such as one loaded from a file in which
    \<^verbatim>\<open>average_pause_duration\<close> is \<^verbatim>\<open>null\<close>, the log line that formats
    \<^verbatim>\<open>params['pause_duration']\<close> with \<^verbatim>\<open>:.3f\<close> raises a \<^verbatim>\<open>TypeError\<close>;
  \<^item> for a profile whose mean pitch is an integer beyond the range of the doubles, such
    as \<open>10\<^sup>4\<^sup>0\<^sup>0\<close> read from a file, the division by \<open>150\<close> raises an \<^verbatim>\<open>OverflowError\<close>
    before the clamp is applied.
\<close>

theorem get_synthesis_parameters_raises:
  "normalize_pitch_for_synthesis None = Inr 1 \<and>
   normalize_speed_for_synthesis None = Inr 1 \<and>
   fst (load_profile ext empty_engine unmeasured_files ''profiles/user1_profile.json'') =
     Some (VoiceProfile_init ext ''user1'' ''User 1'') \<and>
   get_synthesis_parameters ext
     (snd (load_profile ext empty_engine unmeasured_files ''profiles/user1_profile.json''))
     ''user1'' = Inl TypeError \<and>
   get_synthesis_parameters ext
     (snd (load_profile ext empty_engine huge_pitch_files ''profiles/user1_profile.json''))
     ''user1'' = Inl OverflowError"
proof -
  have t: "get_synthesis_parameters ext
     (snd (load_profile ext empty_engine unmeasured_files ''profiles/user1_profile.json''))
     ''user1'' = Inl TypeError"
    unfolding load_profile_unmeasured
    by (simp add: get_synthesis_parameters_def VoiceProfile_init_def Let_def
        normalize_pitch_for_synthesis_def normalize_speed_for_synthesis_def)
  have o: "get_synthesis_parameters ext
     (snd (load_profile ext empty_engine huge_pitch_files ''profiles/user1_profile.json''))
     ''user1'' = Inl OverflowError"
    by (simp add: get_synthesis_parameters_def load_profile_huge_pitch
        normalize_for_synthesis_overflow)
  show ?thesis
    using t o by (simp add: load_profile_unmeasured normalize_for_synthesis_values(1,2))
qed

section \<open>Missing input\<close>

text \<open>
  Claim C8 fails on the code: \<^verbatim>\<open>extract_pauses\<close> has no guard for an empty energy
  sequence, \<^verbatim>\<open>np.percentile\<close> is its first statement and raises an \<^verbatim>\<open>IndexError\<close> on an
  empty array, so no pause list is returned.
\<close>

theorem extract_pauses_empty_raises:
  "extract_pauses ext sr audio [] 25 = Inl IndexError"
  by (simp add: extract_pauses_def percentile_def)


lemma extract_pitch_unvoiced:
  assumes "True \<notin> set (snd (pyin ext audio))"
  shows "extract_pitch ext audio = None"
proof -
  obtain f0 voiced_flag where p: "pyin ext audio = (f0, voiced_flag)" by (cases "pyin ext audio")
  have "\<And>x. x \<in> set (zip f0 voiced_flag) \<Longrightarrow> \<not> snd x"
    using assms p by (auto dest: set_zip_rightD)
  then have "filter snd (zip f0 voiced_flag) = []" by (simp add: filter_empty_conv)
  then show ?thesis by (simp add: extract_pitch_def p)
qed

lemma extract_all_features_unvoiced:
  assumes "True \<notin> set (snd (pyin ext audio))"
  shows "extract_all_features ext sr audio =
     (if mel_energy ext audio = [] then Inl ValueError else Inr None)"
  by (simp add: extract_all_features_def extract_energy_def extract_pitch_unvoiced[OF assms])

text \<open>
  Claim C9. When the audio loads and the pitch tracker marks no frame as voiced,
  \<^verbatim>\<open>extract_pitch\<close> returns \<^verbatim>\<open>None\<close>; if the energy has at least one frame,
  \<^verbatim>\<open>extract_all_features\<close> returns \<^verbatim>\<open>None\<close> and \<^verbatim>\<open>create_voice_profile\<close> returns
  \<^verbatim>\<open>None\<close>; and in every case \<^verbatim>\<open>create_voice_profile\<close> returns no profile and leaves
  the engine, with its stored profiles, as it was.
\<close>

theorem no_voiced_frames_no_profile:
  assumes "preprocess ext audio_path = Inr audio" and "True \<notin> set (snd (pyin ext audio))"
  shows "extract_pitch ext audio = None \<and>
         (mel_energy ext audio \<noteq> [] \<longrightarrow>
            extract_all_features ext (engine_sr eng) audio = Inr None \<and>
            create_voice_profile ext eng uid uname audio_path = (Inr None, eng)) \<and>
         (\<forall>profile. fst (create_voice_profile ext eng uid uname audio_path) \<noteq> Inr (Some profile)) \<and>
         snd (create_voice_profile ext eng uid uname audio_path) = eng"
  using assms(1)
  by (simp add: extract_pitch_unvoiced[OF assms(2)] extract_all_features_unvoiced[OF assms(2)]
      create_voice_profile_def)

theorem no_voiced_frames_no_profile_witness:
  "preprocess silent_externals ''silence.mp3'' = Inr [0, 0, 0] \<and>
   True \<notin> set (snd (pyin silent_externals [0, 0, 0])) \<and>
   mel_energy silent_externals [0, 0, 0] \<noteq> [] \<and>
   extract_pitch silent_externals [0, 0, 0] = None \<and>
   extract_all_features silent_externals 22050 [0, 0, 0] = Inr None \<and>
   create_voice_profile silent_externals \<lparr>engine_sr = 22050, voice_profiles = Map.empty\<rparr>
       ''user1'' ''User 1'' ''silence.mp3'' =
     (Inr None, \<lparr>engine_sr = 22050, voice_profiles = Map.empty\<rparr>)"
proof -
  have h1: "preprocess silent_externals ''silence.mp3'' = Inr [0, 0, 0]" by (simp add: silent_externals_def)
  have h2: "True \<notin> set (snd (pyin silent_externals [0, 0, 0]))" by (simp add: silent_externals_def)
  have h3: "mel_energy silent_externals [0, 0, 0] \<noteq> []" by (simp add: silent_externals_def)
  show ?thesis
    using no_voiced_frames_no_profile[OF h1 h2,
        of "\<lparr>engine_sr = 22050, voice_profiles = Map.empty\<rparr>" "''user1''" "''User 1''"]
      h1 h2 h3
    by simp
qed

section \<open>Saving and loading a profile\<close>

lemma endswith_append: "endswith (xs @ suf) suf"
  by (simp add: endswith_def)

lemma endswith_json: "endswith (d @ ''/'' @ u @ ''_profile.json'') ''.json''"
  using endswith_append[of "d @ ''/'' @ u @ ''_profile''" "''.json''"] by simp

lemma endswith_yaml: "endswith (d @ ''/'' @ u @ ''_profile.yaml'') ''.yaml''"
  using endswith_append[of "d @ ''/'' @ u @ ''_profile''" "''.yaml''"] by simp

lemma endswith_yaml_not_json: "\<not> endswith (d @ ''/'' @ u @ ''_profile.yaml'') ''.json''"
proof -
  have "drop (length (d @ ''/'' @ u @ ''_profile.yaml'') - length ''.json'') (d @ ''/'' @ u @ ''_profile.yaml'') = ''.yaml''"
    using endswith_yaml[of d u] by (simp add: endswith_def)
  then show ?thesis by (simp add: endswith_def)
qed

text \<open>
  Through JSON the round trip is as claim C3 says: the six fields come back (the pitch
  range with the same items, as a list), the raw data and the emotion profile do not,
  although the emotion profile is in the saved record.
\<close>

lemma json_round_trip:
  assumes "voice_profiles eng uid = Some p"
  shows "\<exists>path files' q eng''.
     save_profile eng files uid dir ''json'' = (Some path, files') \<and>
     load_profile ext eng' files' path = (Some q, eng'') \<and>
     user_id q = user_id p \<and> user_name q = user_name p \<and>
     speaking_rate_wpm q = speaking_rate_wpm p \<and>
     average_pause_duration q = average_pause_duration p \<and>
     mean_pitch q = mean_pitch p \<and>
     map_option seq_items (pitch_range q) = map_option seq_items (pitch_range p) \<and>
     energy_levels q = None \<and> pitch_contour q = None \<and> emotion_profile q = None \<and>
     d_emotion_profile (to_dict p) = emotion_profile p \<and>
     voice_profiles eng'' (user_id p) = Some q"
  using assms endswith_json[of dir uid]
  by (cases "pitch_range p")
     (simp_all add: save_profile_def load_profile_def json_load_def to_dict_def Let_def
        VoiceProfile_init_def tuple_to_list_def)

text \<open>
  Through YAML a profile whose pitch range is a tuple does not come back at all, and every
  profile that \<^verbatim>\<open>create_voice_profile\<close> builds has its pitch range in a tuple.
\<close>

lemma yaml_round_trip_tuple:
  assumes "voice_profiles eng uid = Some p" and "pitch_range p = Some (PyTuple xs)"
  shows "\<exists>path files'.
     save_profile eng files uid dir ''yaml'' = (Some path, files') \<and>
     load_profile ext eng' files' path = (None, eng')"
  using assms endswith_yaml[of dir uid] endswith_yaml_not_json[of dir uid]
  by (simp add: save_profile_def load_profile_def yaml_safe_load_def to_dict_def Let_def)

lemma create_voice_profile_tuple:
  assumes "create_voice_profile ext eng uid uname audio_path = (Inr (Some p), eng')"
  shows "voice_profiles eng' uid = Some p \<and> (\<exists>a b. pitch_range p = Some (PyTuple [a, b]))"
  using assms
  by (auto simp: create_voice_profile_def Let_def split: sum.splits option.splits)

lemma created_profile_yaml_fails:
  assumes "create_voice_profile ext eng uid uname audio_path = (Inr (Some p), eng')"
  shows "\<exists>path files'.
     save_profile eng' files uid dir ''yaml'' = (Some path, files') \<and>
     load_profile ext eng' files' path = (None, eng')"
proof -
  from create_voice_profile_tuple[OF assms] obtain a b where
    "voice_profiles eng' uid = Some p" "pitch_range p = Some (PyTuple [a, b])" by blast
  then show ?thesis by (rule yaml_round_trip_tuple)
qed


text \<open>
  Claim C3 fails on the code for YAML: the example profile is saved as
  \<^verbatim>\<open>profiles/user1_profile.yaml\<close>, and loading that file returns \<^verbatim>\<open>None\<close> and leaves
  the engine unchanged, because \<^verbatim>\<open>yaml.safe_load\<close> rejects the tuple that \<^verbatim>\<open>yaml.dump\<close>
  wrote.
\<close>

theorem yaml_round_trip_loses_profile:
  "voice_profiles example_engine ''user1'' = Some example_profile \<and>
   pitch_range example_profile = Some (PyTuple [100, 140]) \<and>
   save_profile example_engine Map.empty ''user1'' ''profiles'' ''yaml'' =
     (Some ''profiles/user1_profile.yaml'',
      [''profiles/user1_profile.yaml'' \<mapsto> YamlText (to_dict example_profile)]) \<and>
   load_profile ext example_engine
       [''profiles/user1_profile.yaml'' \<mapsto> YamlText (to_dict example_profile)]
       ''profiles/user1_profile.yaml'' =
     (None, example_engine)"
proof -
  have pr: "pitch_range example_profile = Some (PyTuple [100, 140])"
    by (simp add: example_profile_def Let_def)
  have e1: "endswith ''profiles/user1_profile.yaml'' ''.yaml''"
    using endswith_yaml[of "''profiles''" "''user1''"] by simp
  have e2: "\<not> endswith ''profiles/user1_profile.yaml'' ''.json''"
    using endswith_yaml_not_json[of "''profiles''" "''user1''"] by simp
  have ld: "yaml_safe_load (YamlText (to_dict example_profile)) = None"
    by (simp add: yaml_safe_load_def to_dict_def pr)
  show ?thesis
    by (simp add: pr e1 e2 ld example_engine_def save_profile_def load_profile_def Let_def)
qed

end
